theory Spec2Isabelle
  imports Main
begin

section \<open>Data model\<close>

subsection \<open>Tasks (models/models.go) and the tasks table (database/database.go)\<close>

text \<open>
  A timestamp is a PostgreSQL \<^verbatim>\<open>TIMESTAMP\<close>: a count of microseconds. The status column
  is a \<^verbatim>\<open>VARCHAR(50)\<close> and the Go field a \<^verbatim>\<open>string\<close>, so the model keeps it
  a string; the values the program itself writes are \<^verbatim>\<open>pending\<close>, \<^verbatim>\<open>in_progress\<close>
  and \<^verbatim>\<open>completed\<close>.
\<close>

type_synonym timestamp = int

record Task =
  ID :: string
  UserID :: string
  Title :: string
  Description :: string
  Status :: string
  CreatedAt :: timestamp
  UpdatedAt :: timestamp

text \<open>
  The errors of the modelled code: \<^verbatim>\<open>errors.New(msg)\<close>, an error reported by the
  database driver, \<^verbatim>\<open>sql.ErrNoRows\<close>, the two errors of \<^verbatim>\<open>strconv\<close>, and the
  worker's \<^verbatim>\<open>ChannelFullError\<close>.
\<close>

datatype error = ErrorsNew string | DriverError | ErrNoRows | ErrSyntax | ErrRange | ChannelFullError

text \<open>
  The store behind \<^verbatim>\<open>database.DB\<close>: the rows of the tasks table in scan order, the
  value of \<^verbatim>\<open>NOW()\<close>, whether the connection is broken (every statement then fails
  with a driver error), whether the stream of result rows of a query that was accepted
  breaks and after how many rows it does, and the journal of the task identifiers for
  which the worker's conditional \<^verbatim>\<open>UPDATE\<close> statement was sent through \<^verbatim>\<open>Exec\<close>.
\<close>

record database =
  tasks :: "Task list"
  NOW :: timestamp
  conn_broken :: bool
  stream_cut :: "nat option"
  executed :: "string list"

definition minute :: int where
  "minute = 60000000"

definition zero_Task :: Task where
  "zero_Task = \<lparr>ID = [], UserID = [], Title = [], Description = [], Status = [],
     CreatedAt = 0, UpdatedAt = 0\<rparr>"

definition valid_status :: "string \<Rightarrow> bool" where
  "valid_status s \<longleftrightarrow> s = ''pending'' \<or> s = ''in_progress'' \<or> s = ''completed''"

definition status_ok :: "database \<Rightarrow> bool" where
  "status_ok db \<longleftrightarrow> list_all (\<lambda>t. valid_status (Status t)) (tasks db)"

subsection \<open>The store operations the worker uses (repositories/repositories.go)\<close>

text \<open>
  \<^verbatim>\<open>GetTaskByID\<close> returns Go's pair \<^verbatim>\<open>(task, err)\<close>: \<^verbatim>\<open>(nil, "task not found")\<close> when
  no row has the identifier, the zero task together with the driver's error when the
  statement fails, and \<^verbatim>\<open>(task, nil)\<close> for the first row found.
\<close>

definition GetTaskByID :: "database \<Rightarrow> string \<Rightarrow> Task option \<times> error option" where
  "GetTaskByID db taskID =
     (if conn_broken db then (Some zero_Task, Some DriverError)
      else case find (\<lambda>t. ID t = taskID) (tasks db) of
             None \<Rightarrow> (None, Some (ErrorsNew ''task not found''))
           | Some t \<Rightarrow> (Some t, None))"

text \<open>
  \<^verbatim>\<open>WHERE status IN ('pending', 'in_progress') AND created_at < NOW() - INTERVAL '1 minute' * $1\<close>.
  A query that fails returns the nil slice and the error. The loop over the result rows
  ends when \<^verbatim>\<open>rows.Next()\<close> is false, and \<^verbatim>\<open>rows.Err()\<close> is not looked at: when the
  stream breaks after some rows, the rows read so far are returned with a nil error.
  (The arithmetic of the cutoff is exact here; the model is for delays whose interval and
  cutoff PostgreSQL represents.)
\<close>

definition GetTasksForAutoCompletion :: "database \<Rightarrow> int \<Rightarrow> Task list \<times> error option" where
  "GetTasksForAutoCompletion db minutes =
     (if conn_broken db then ([], Some DriverError)
      else (let matching = filter (\<lambda>t. (Status t = ''pending'' \<or> Status t = ''in_progress'')
                                        \<and> CreatedAt t < NOW db - minute * minutes) (tasks db)
            in case stream_cut db of
                 None \<Rightarrow> (matching, None)
               | Some k \<Rightarrow> (take k matching, None)))"

text \<open>
  \<^verbatim>\<open>UPDATE tasks SET status = 'completed', updated_at = NOW()
  WHERE id = $1 AND status IN ('pending', 'in_progress')\<close>, sent with \<^verbatim>\<open>Exec\<close>: the
  number of rows affected is not looked at, so an update that matches no row returns
  \<^verbatim>\<open>nil\<close>.
\<close>

definition AutoCompleteTask :: "database \<Rightarrow> string \<Rightarrow> error option \<times> database" where
  "AutoCompleteTask db taskID =
     (if conn_broken db then (Some DriverError, db\<lparr>executed := executed db @ [taskID]\<rparr>)
      else (None, db\<lparr>executed := executed db @ [taskID],
                      tasks := map (\<lambda>t. if ID t = taskID \<and> (Status t = ''pending'' \<or> Status t = ''in_progress'')
                                         then t\<lparr>Status := ''completed'', UpdatedAt := NOW db\<rparr> else t)
                                   (tasks db)\<rparr>))"

subsection \<open>The writes of the HTTP path (repositories/repositories.go, the task service)\<close>

text \<open>
  The other writers of the tasks table. \<^verbatim>\<open>CreateTask\<close> inserts a row with the literal
  status \<^verbatim>\<open>'pending'\<close>; the identifier is the one \<^verbatim>\<open>gen_random_uuid()\<close> produces,
  here an argument. \<^verbatim>\<open>UpdateTask\<close> overwrites title, description and status of the
  rows with the task's identifier and reports \<^verbatim>\<open>sql.ErrNoRows\<close> when there is none.
  \<^verbatim>\<open>DeleteTask\<close> removes them. Each returns Go's results followed by the store.
\<close>

definition CreateTask :: "database \<Rightarrow> string \<Rightarrow> Task \<Rightarrow> error option \<times> Task \<times> database" where
  "CreateTask db uuid task =
     (if conn_broken db then (Some DriverError, task, db)
      else (None, task\<lparr>ID := uuid, CreatedAt := NOW db, UpdatedAt := NOW db\<rparr>,
            db\<lparr>tasks := tasks db @
              [\<lparr>ID = uuid, UserID = UserID task, Title = Title task,
                Description = Description task, Status = ''pending'',
                CreatedAt = NOW db, UpdatedAt = NOW db\<rparr>]\<rparr>))"

definition UpdateTask :: "database \<Rightarrow> Task \<Rightarrow> error option \<times> Task \<times> database" where
  "UpdateTask db task =
     (if conn_broken db then (Some DriverError, task, db)
      else if find (\<lambda>t. ID t = ID task) (tasks db) = None then (Some ErrNoRows, task, db)
      else (None, task\<lparr>UpdatedAt := NOW db\<rparr>,
            db\<lparr>tasks := map (\<lambda>t. if ID t = ID task
                                    then t\<lparr>Title := Title task, Description := Description task,
                                           Status := Status task, UpdatedAt := NOW db\<rparr>
                                    else t) (tasks db)\<rparr>))"

definition DeleteTask :: "database \<Rightarrow> string \<Rightarrow> error option \<times> database" where
  "DeleteTask db taskID =
     (if conn_broken db then (Some DriverError, db)
      else (None, db\<lparr>tasks := filter (\<lambda>t. ID t \<noteq> taskID) (tasks db)\<rparr>))"

text \<open>
  \<^verbatim>\<open>TaskService.UpdateTask\<close>, the only caller of \<^verbatim>\<open>UpdateTask\<close>: it fetches the task,
  checks the owner, accepts a status only from \<^verbatim>\<open>validStatuses\<close>, overwrites the
  fields the request gives, and writes the task back. \<open>Panics\<close> stands for the nil
  dereference that a fetch returning neither a task nor an error would cause.
\<close>

record UpdateTaskRequest =
  reqTitle :: string
  reqDescription :: string
  reqStatus :: string

datatype 'a outcome = Returns 'a | Panics

definition validStatuses :: "string \<Rightarrow> bool" where
  "validStatuses s \<longleftrightarrow> s = ''pending'' \<or> s = ''in_progress'' \<or> s = ''completed''"

definition TaskService_UpdateTask ::
  "database \<Rightarrow> string \<Rightarrow> string \<Rightarrow> UpdateTaskRequest \<Rightarrow> bool
    \<Rightarrow> (Task option \<times> error option \<times> database) outcome" where
  "TaskService_UpdateTask db userID taskID req isAdmin =
     (case GetTaskByID db taskID of
        (fetched, err) \<Rightarrow>
          (case err of
             Some e \<Rightarrow> Returns (None, Some e, db)
           | None \<Rightarrow>
               (case fetched of
                  None \<Rightarrow> Panics
                | Some task \<Rightarrow>
                    if \<not> isAdmin \<and> UserID task \<noteq> userID
                    then Returns (None, Some (ErrorsNew ''unauthorized to update this task''), db)
                    else if reqStatus req \<noteq> [] \<and> \<not> validStatuses (reqStatus req)
                    then Returns (None, Some (ErrorsNew ''invalid status''), db)
                    else
                      (let task1 = (if reqTitle req \<noteq> [] then task\<lparr>Title := reqTitle req\<rparr> else task);
                           task2 = (if reqDescription req \<noteq> []
                                    then task1\<lparr>Description := reqDescription req\<rparr> else task1);
                           task3 = (if reqStatus req \<noteq> [] then task2\<lparr>Status := reqStatus req\<rparr> else task2)
                       in case UpdateTask db task3 of
                            (Some e, task4, db') \<Rightarrow> Returns (None, Some e, db')
                          | (None, task4, db') \<Rightarrow> Returns (Some (task4\<lparr>UserID := []\<rparr>), None, db')))))"

section \<open>Configuration (config/config.go)\<close>

subsection \<open>strconv.Atoi\<close>

text \<open>
  \<^verbatim>\<open>strconv.Atoi\<close> belongs to Go's standard library; this is its code for a 64-bit
  \<^verbatim>\<open>int\<close> and base 10. \<^verbatim>\<open>ParseUint\<close> reads the characters from the left: a
  character that is not a decimal digit ends it with \<^verbatim>\<open>(0, ErrSyntax)\<close>, and a digit
  with which the value leaves the range of \<^verbatim>\<open>uint64\<close> ends it with
  \<^verbatim>\<open>(1<<64 - 1, ErrRange)\<close>, whatever follows. \<^verbatim>\<open>ParseInt\<close> takes one sign off,
  passes a syntax error on with the value 0, and turns a value beyond the range of
  \<^verbatim>\<open>int64\<close> into the nearest bound together with \<^verbatim>\<open>ErrRange\<close>. \<^verbatim>\<open>Atoi\<close> reads a
  string of 1 to 18 characters itself (no such numeral can overflow) and gives every
  other string to \<^verbatim>\<open>ParseInt\<close>.
\<close>

definition is_digit :: "char \<Rightarrow> bool" where
  "is_digit c \<longleftrightarrow> (48::nat) \<le> of_char c \<and> of_char c \<le> (57::nat)"

definition digit_val :: "char \<Rightarrow> nat" where
  "digit_val c = of_char c - 48"

fun ParseUint_digits :: "nat \<Rightarrow> string \<Rightarrow> nat \<times> error option" where
  "ParseUint_digits n [] = (n, None)"
| "ParseUint_digits n (c # cs) =
     (if \<not> is_digit c then (0, Some ErrSyntax)
      else if 2 ^ 64 \<le> n * 10 + digit_val c then (2 ^ 64 - 1, Some ErrRange)
      else ParseUint_digits (n * 10 + digit_val c) cs)"

definition ParseUint :: "string \<Rightarrow> nat \<times> error option" where
  "ParseUint s = (if s = [] then (0, Some ErrSyntax) else ParseUint_digits 0 s)"

text \<open>
  \<open>ParseInt_range\<close> is the part of \<^verbatim>\<open>ParseInt\<close> after its call of \<^verbatim>\<open>ParseUint\<close>, for
  the sign it has seen and the pair \<^verbatim>\<open>ParseUint\<close> returned.
\<close>

definition ParseInt_range :: "bool \<Rightarrow> nat \<times> error option \<Rightarrow> int \<times> error option" where
  "ParseInt_range neg r =
     (case r of
        (un, err) \<Rightarrow>
          if err \<noteq> None \<and> err \<noteq> Some ErrRange then (0, err)
          else if \<not> neg \<and> 2 ^ 63 \<le> un then (2 ^ 63 - 1, Some ErrRange)
          else if neg \<and> 2 ^ 63 < un then (- (2 ^ 63), Some ErrRange)
          else (if neg then - int un else int un, None))"

definition ParseInt :: "string \<Rightarrow> int \<times> error option" where
  "ParseInt s =
     (case s of
        [] \<Rightarrow> (0, Some ErrSyntax)
      | c # cs \<Rightarrow>
          ParseInt_range (c = CHR ''-'')
            (ParseUint (if c = CHR ''+'' \<or> c = CHR ''-'' then cs else s)))"

fun Atoi_digits :: "int \<Rightarrow> string \<Rightarrow> int \<times> error option" where
  "Atoi_digits n [] = (n, None)"
| "Atoi_digits n (ch # cs) =
     (if \<not> is_digit ch then (0, Some ErrSyntax)
      else Atoi_digits (n * 10 + int (digit_val ch)) cs)"

definition Atoi :: "string \<Rightarrow> int \<times> error option" where
  "Atoi s =
     (case s of
        [] \<Rightarrow> ParseInt s
      | c # cs \<Rightarrow>
          if length s < 19
          then (if (c = CHR ''-'' \<or> c = CHR ''+'') \<and> cs = [] then (0, Some ErrSyntax)
                else case Atoi_digits 0 (if c = CHR ''-'' \<or> c = CHR ''+'' then cs else s) of
                       (n, Some e) \<Rightarrow> (0, Some e)
                     | (n, None) \<Rightarrow> (if c = CHR ''-'' then - n else n, None))
          else ParseInt s)"

subsection \<open>Reading the environment\<close>

text \<open>
  The environment is the function \<^verbatim>\<open>os.Getenv\<close>: an unset variable reads as the empty
  string.
\<close>

type_synonym environ = "string \<Rightarrow> string"

record Config =
  DBHost :: string
  DBPort :: string
  DBUser :: string
  DBPassword :: string
  DBName :: string
  JWTSecret :: string
  JWTExpiryHours :: int
  AutoCompleteMinutes :: int
  ServerPort :: string

definition getEnv :: "environ \<Rightarrow> string \<Rightarrow> string \<Rightarrow> string" where
  "getEnv env key defaultValue =
     (let v = env key in if v = [] then defaultValue else v)"

definition getEnvInt :: "environ \<Rightarrow> string \<Rightarrow> int \<Rightarrow> int" where
  "getEnvInt env key defaultValue =
     (let v = env key in if v = [] then defaultValue else fst (Atoi v))"

definition LoadConfig :: "environ \<Rightarrow> Config" where
  "LoadConfig env =
     \<lparr>DBHost = getEnv env ''DB_HOST'' ''localhost'',
      DBPort = getEnv env ''DB_PORT'' ''5432'',
      DBUser = getEnv env ''DB_USER'' ''postgres'',
      DBPassword = getEnv env ''DB_PASSWORD'' ''postgres'',
      DBName = getEnv env ''DB_NAME'' ''taskdb'',
      JWTSecret = getEnv env ''JWT_SECRET'' ''secret-key'',
      JWTExpiryHours = getEnvInt env ''JWT_EXPIRY_HOURS'' 24,
      AutoCompleteMinutes = getEnvInt env ''AUTO_COMPLETE_MINUTES'' 30,
      ServerPort = getEnv env ''SERVER_PORT'' ''8081''\<rparr>"

section \<open>The worker (worker package)\<close>

subsection \<open>autoCompleteTask\<close>

text \<open>
  What one call of \<^verbatim>\<open>autoCompleteTask\<close> does, named after the line it logs:
  \<^verbatim>\<open>Task %s not found: %v\<close>, \<^verbatim>\<open>Task %s is already completed, skipping auto-completion\<close>,
  \<^verbatim>\<open>Error auto-completing task %s: %v\<close>, \<^verbatim>\<open>Task %s auto-completed successfully\<close>.
  \<open>NilDereference\<close> is the panic that reading \<^verbatim>\<open>task.Status\<close> through a nil pointer
  would be.
\<close>

datatype completion =
  TaskNotFound error | AlreadyCompleted | UpdateFailed error | AutoCompleted | NilDereference

text \<open>
  The function makes two store calls, and other goroutines (the HTTP handlers) can write
  to the store between them. The model therefore has the part up to the status check,
  which returns the outcome when the function returns early, and the part that sends the
  update; \<open>autoCompleteTask\<close> is the two run back to back.
\<close>

definition autoCompleteTask_check :: "database \<Rightarrow> string \<Rightarrow> completion option" where
  "autoCompleteTask_check d taskID =
     (case GetTaskByID d taskID of
        (task, err) \<Rightarrow>
          (case err of
             Some e \<Rightarrow> Some (TaskNotFound e)
           | None \<Rightarrow>
               (case task of
                  None \<Rightarrow> Some NilDereference
                | Some t \<Rightarrow> if Status t = ''completed'' then Some AlreadyCompleted else None)))"

definition autoCompleteTask_update :: "database \<Rightarrow> string \<Rightarrow> completion \<times> database" where
  "autoCompleteTask_update d taskID =
     (case AutoCompleteTask d taskID of
        (Some err, d') \<Rightarrow> (UpdateFailed err, d')
      | (None, d') \<Rightarrow> (AutoCompleted, d'))"

definition autoCompleteTask :: "database \<Rightarrow> string \<Rightarrow> completion \<times> database" where
  "autoCompleteTask d taskID =
     (case autoCompleteTask_check d taskID of
        Some c \<Rightarrow> (c, d)
      | None \<Rightarrow> autoCompleteTask_update d taskID)"

subsection \<open>The select statements\<close>

text \<open>
  The cases a \<^verbatim>\<open>select\<close> of the worker waits on: the closed \<^verbatim>\<open>stopChannel\<close>, the
  ticker, a receive from and a send to \<^verbatim>\<open>taskChannel\<close>, and \<^verbatim>\<open>time.After(d)\<close>.
  Durations are \<^verbatim>\<open>time.Duration\<close> values, that is nanoseconds.
\<close>

datatype wait_case = StopSignal | TickerC | RecvTask | SendTask | After nat

definition Millisecond :: nat where
  "Millisecond = 1000000"

definition Second :: nat where
  "Second = 1000 * Millisecond"

definition checkAndQueueTasks_select :: "wait_case list" where
  "checkAndQueueTasks_select = [StopSignal, TickerC]"

definition findAndQueueTasks_select :: "wait_case list" where
  "findAndQueueTasks_select = [SendTask, After (100 * Millisecond)]"

definition processTasksFromChannel_select :: "wait_case list" where
  "processTasksFromChannel_select = [StopSignal, RecvTask]"

definition SubmitTask_select :: "wait_case list" where
  "SubmitTask_select = [SendTask, After (5 * Second)]"

text \<open>
  The surroundings of a waiting goroutine say, for each case on a channel, the first
  instant (counted from the start of the wait) at which it can proceed, if any; a timer
  of duration \<open>d\<close> can proceed at \<open>d\<close>. The select ends at the earliest such instant
  among its cases and takes one of the cases that can proceed then; with no such instant
  it blocks forever.
\<close>

type_synonym surroundings = "wait_case \<Rightarrow> nat option"

definition ready_at :: "surroundings \<Rightarrow> wait_case \<Rightarrow> nat option" where
  "ready_at sur c = (case c of After d \<Rightarrow> Some d | _ \<Rightarrow> sur c)"

fun earliest :: "nat option list \<Rightarrow> nat option" where
  "earliest [] = None"
| "earliest (None # xs) = earliest xs"
| "earliest (Some t # xs) = (case earliest xs of None \<Rightarrow> Some t | Some u \<Rightarrow> Some (min t u))"

definition select_time :: "wait_case list \<Rightarrow> surroundings \<Rightarrow> nat option" where
  "select_time sel sur = earliest (map (ready_at sur) sel)"

definition select_outcomes :: "wait_case list \<Rightarrow> surroundings \<Rightarrow> (wait_case \<times> nat) list" where
  "select_outcomes sel sur =
     (case select_time sel sur of
        None \<Rightarrow> []
      | Some t \<Rightarrow> map (\<lambda>c. (c, t)) (filter (\<lambda>c. ready_at sur c = Some t) sel))"

text \<open>
  A select observes the stop signal when it has ended by the instant the signal is given,
  whatever its other cases do.
\<close>

definition ends_by :: "wait_case list \<Rightarrow> surroundings \<Rightarrow> nat \<Rightarrow> bool" where
  "ends_by sel sur t = (case select_time sel sur of None \<Rightarrow> False | Some u \<Rightarrow> u \<le> t)"

text \<open>
  \<^verbatim>\<open>SubmitTask\<close>: the possible ends of a call, each with its instant. Besides the
  surroundings, the second argument is the instant at which \<^verbatim>\<open>Stop\<close> closes
  \<^verbatim>\<open>taskChannel\<close>, if it does. The send case can proceed as soon as the channel has
  room or is closed; taking it on the closed channel panics, otherwise the call returns
  \<^verbatim>\<open>nil\<close>. Taking the timer case returns \<^verbatim>\<open>ErrChannelFull\<close>.
  \<open>Error\<close> is the method of that name: the text of \<^verbatim>\<open>ChannelFullError\<close> and of an
  \<^verbatim>\<open>errors.New\<close> value; the texts of the driver's and of \<^verbatim>\<open>strconv\<close>'s errors are
  not modelled and read as empty.
\<close>

definition ErrChannelFull :: error where
  "ErrChannelFull = ChannelFullError"

definition Error :: "error \<Rightarrow> string" where
  "Error e = (case e of ChannelFullError \<Rightarrow> ''task queue is full'' | ErrorsNew m \<Rightarrow> m | _ \<Rightarrow> [])"

definition closed_by :: "nat option \<Rightarrow> nat \<Rightarrow> bool" where
  "closed_by closed_at t = (case closed_at of None \<Rightarrow> False | Some c \<Rightarrow> c \<le> t)"

definition SubmitTask :: "surroundings \<Rightarrow> nat option \<Rightarrow> string \<Rightarrow> (error option outcome \<times> nat) list" where
  "SubmitTask sur closed_at taskID =
     map (\<lambda>(c, t). (if c = SendTask
                      then (if closed_by closed_at t then Panics else Returns None)
                      else Returns (Some ErrChannelFull), t))
         (select_outcomes SubmitTask_select (sur(SendTask := earliest [sur SendTask, closed_at])))"

subsection \<open>The worker's state\<close>

text \<open>The lines the worker logs.\<close>

datatype log =
    Starting | Started | Stopping | Stopped
  | ErrorFetching error
  | Queued string
  | Completion string completion
  | Submitted string

text \<open>
  Where each goroutine stands. The checker (\<^verbatim>\<open>checkAndQueueTasks\<close>) is at its select, at
  the head of the loop of \<^verbatim>\<open>findAndQueueTasks\<close> with the tasks still to visit, at the
  select that sends one identifier (the marker already set), or has returned. The
  processor (\<^verbatim>\<open>processTasksFromChannel\<close>) is at its select, inside \<^verbatim>\<open>autoCompleteTask\<close>
  before the fetch or before the update, or has returned. The caller of \<^verbatim>\<open>Stop\<close> has
  not called it, waits in \<^verbatim>\<open>wg.Wait()\<close>, or has returned.
\<close>

datatype checker_pc = CheckIdle | CheckSelect | CheckLoop "Task list" | CheckSend string "Task list" | CheckDone

datatype processor_pc = ProcIdle | ProcSelect | ProcFetch string | ProcUpdate string | ProcDone

datatype stopper_pc = StopNotCalled | StopWait | StopDone

text \<open>
  The fields of \<^verbatim>\<open>TaskWorker\<close> (the buffered channel as its queue and a closed flag, the
  signal channel as its closed flag, the wait group as its counter, the mutex-protected
  map), the three control points, and the history of the run: the log, the identifiers
  received by the processor, those whose handling has ended, those the checker has sent,
  and the queue as it was when \<^verbatim>\<open>Stop\<close> was called.
\<close>

record TaskWorker =
  db :: database
  cfg :: Config
  taskChannel :: "string list"
  taskChannel_closed :: bool
  stopChannel_closed :: bool
  wg :: nat
  processedTasks :: "string \<rightharpoonup> bool"
  checker :: checker_pc
  processor :: processor_pc
  stopper :: stopper_pc
  logs :: "log list"
  received :: "string list"
  handled :: "string list"
  sent :: "string list"
  queue_at_stop :: "string list"

definition taskChannel_cap :: nat where
  "taskChannel_cap = 100"

definition NewTaskWorker :: "database \<Rightarrow> Config \<Rightarrow> TaskWorker" where
  "NewTaskWorker d c =
     \<lparr>db = d, cfg = c, taskChannel = [], taskChannel_closed = False,
      stopChannel_closed = False, wg = 0, processedTasks = Map.empty,
      checker = CheckIdle, processor = ProcIdle, stopper = StopNotCalled,
      logs = [], received = [], handled = [], sent = [], queue_at_stop = []\<rparr>"

definition Start :: "TaskWorker \<Rightarrow> TaskWorker" where
  "Start w = w\<lparr>wg := wg w + 2, processor := ProcSelect, checker := CheckSelect,
               logs := logs w @ [Starting, Started]\<rparr>"

subsection \<open>The steps of a run\<close>

text \<open>
  One event is one atomic move of one goroutine; a schedule is a list of events. Go
  chooses among the ready cases of a select at random, so at a select every ready case
  is an event that can happen.
  \<^item> \<open>StopClose\<close>: \<^verbatim>\<open>Stop\<close> closes \<^verbatim>\<open>stopChannel\<close> and enters \<^verbatim>\<open>wg.Wait()\<close>;
    \<open>StopFinish\<close>: the wait ends, \<^verbatim>\<open>taskChannel\<close> is closed, \<^verbatim>\<open>Stop\<close> returns.
  \<^item> \<open>CheckStop\<close> and \<open>CheckTick\<close>: the two cases of the checker's select; the tick runs
    the query of \<^verbatim>\<open>findAndQueueTasks\<close>. \<open>CheckNext\<close>: the head of its loop (skip a marked
    task, mark an unmarked one, or leave the loop). \<open>CheckSent\<close> and \<open>CheckTimeout\<close>: the
    two cases of its inner select; the timer can only win while the channel is full.
  \<^item> \<open>ProcStop\<close> and \<open>ProcRecv\<close>: the two cases of the processor's select.
    \<open>ProcFetched\<close>: the fetch and the status check of \<^verbatim>\<open>autoCompleteTask\<close>;
    \<open>ProcUpdated\<close>: its update.
  \<^item> \<open>SubmitSent\<close> and \<open>SubmitTimeout\<close>: the two cases of the select of a call of
    \<^verbatim>\<open>SubmitTask\<close>.
  \<^item> \<open>Env\<close>: anything else that happens to the store (the HTTP handlers create, edit and
    delete tasks, the clock advances, the connection breaks or recovers).
  An event that cannot happen in a state, or that would panic there (a second close, a
  send on the closed channel, a wait group counter below zero, a nil dereference), has
  no successor.
\<close>

datatype event =
    StopClose | StopFinish
  | CheckStop | CheckTick | CheckNext | CheckSent | CheckTimeout
  | ProcStop | ProcRecv | ProcFetched | ProcUpdated
  | SubmitSent string | SubmitTimeout string
  | Env database

fun step :: "event \<Rightarrow> TaskWorker \<Rightarrow> TaskWorker option" where
  "step StopClose w =
     (if stopper w = StopNotCalled \<and> \<not> stopChannel_closed w
      then Some (w\<lparr>stopChannel_closed := True, stopper := StopWait,
                   queue_at_stop := taskChannel w, logs := logs w @ [Stopping]\<rparr>)
      else None)"
| "step StopFinish w =
     (if stopper w = StopWait \<and> wg w = 0 \<and> \<not> taskChannel_closed w
      then Some (w\<lparr>taskChannel_closed := True, stopper := StopDone, logs := logs w @ [Stopped]\<rparr>)
      else None)"
| "step CheckStop w =
     (if checker w = CheckSelect \<and> stopChannel_closed w \<and> 0 < wg w
      then Some (w\<lparr>checker := CheckDone, wg := wg w - 1\<rparr>)
      else None)"
| "step CheckTick w =
     (if checker w = CheckSelect
      then (case GetTasksForAutoCompletion (db w) (AutoCompleteMinutes (cfg w)) of
              (ts, Some err) \<Rightarrow> Some (w\<lparr>logs := logs w @ [ErrorFetching err]\<rparr>)
            | (ts, None) \<Rightarrow> Some (w\<lparr>checker := CheckLoop ts\<rparr>))
      else None)"
| "step CheckNext w =
     (case checker w of
        CheckLoop [] \<Rightarrow> Some (w\<lparr>checker := CheckSelect\<rparr>)
      | CheckLoop (task # ts) \<Rightarrow>
          (if processedTasks w (ID task) = None
           then Some (w\<lparr>processedTasks := (processedTasks w)(ID task \<mapsto> True),
                        checker := CheckSend (ID task) ts\<rparr>)
           else Some (w\<lparr>checker := CheckLoop ts\<rparr>))
      | _ \<Rightarrow> None)"
| "step CheckSent w =
     (case checker w of
        CheckSend taskID ts \<Rightarrow>
          (if \<not> taskChannel_closed w \<and> length (taskChannel w) < taskChannel_cap
           then Some (w\<lparr>taskChannel := taskChannel w @ [taskID], sent := sent w @ [taskID],
                        logs := logs w @ [Queued taskID], checker := CheckLoop ts\<rparr>)
           else None)
      | _ \<Rightarrow> None)"
| "step CheckTimeout w =
     (case checker w of
        CheckSend taskID ts \<Rightarrow>
          (if \<not> taskChannel_closed w \<and> taskChannel_cap \<le> length (taskChannel w)
           then Some (w\<lparr>processedTasks := (processedTasks w)(taskID := None),
                        checker := CheckLoop ts\<rparr>)
           else None)
      | _ \<Rightarrow> None)"
| "step ProcStop w =
     (if processor w = ProcSelect \<and> stopChannel_closed w \<and> 0 < wg w
      then Some (w\<lparr>processor := ProcDone, wg := wg w - 1\<rparr>)
      else None)"
| "step ProcRecv w =
     (if processor w = ProcSelect
      then (case taskChannel w of
              taskID # q \<Rightarrow> Some (w\<lparr>taskChannel := q, received := received w @ [taskID],
                                    processor := ProcFetch taskID\<rparr>)
            | [] \<Rightarrow> if taskChannel_closed w
                    then Some (w\<lparr>received := received w @ [[]], processor := ProcFetch []\<rparr>)
                    else None)
      else None)"
| "step ProcFetched w =
     (case processor w of
        ProcFetch taskID \<Rightarrow>
          (case autoCompleteTask_check (db w) taskID of
             None \<Rightarrow> Some (w\<lparr>processor := ProcUpdate taskID\<rparr>)
           | Some c \<Rightarrow>
               if c = NilDereference then None
               else Some (w\<lparr>logs := logs w @ [Completion taskID c],
                            handled := handled w @ [taskID], processor := ProcSelect\<rparr>))
      | _ \<Rightarrow> None)"
| "step ProcUpdated w =
     (case processor w of
        ProcUpdate taskID \<Rightarrow>
          (case autoCompleteTask_update (db w) taskID of
             (c, d') \<Rightarrow> Some (w\<lparr>db := d', logs := logs w @ [Completion taskID c],
                                handled := handled w @ [taskID], processor := ProcSelect\<rparr>))
      | _ \<Rightarrow> None)"
| "step (SubmitSent taskID) w =
     (if \<not> taskChannel_closed w \<and> length (taskChannel w) < taskChannel_cap
      then Some (w\<lparr>taskChannel := taskChannel w @ [taskID], logs := logs w @ [Submitted taskID]\<rparr>)
      else None)"
| "step (SubmitTimeout taskID) w =
     (if \<not> taskChannel_closed w \<and> taskChannel_cap \<le> length (taskChannel w)
      then Some w
      else None)"
| "step (Env d') w = Some (w\<lparr>db := d'\<lparr>executed := executed (db w)\<rparr>\<rparr>)"

fun run :: "event list \<Rightarrow> TaskWorker \<Rightarrow> TaskWorker option" where
  "run [] w = Some w"
| "run (e # es) w = (case step e w of None \<Rightarrow> None | Some w' \<Rightarrow> run es w')"

text \<open>
  The worker of \<^verbatim>\<open>main\<close>: created and started at once. A state is reachable when some
  schedule leads to it from there.
\<close>

definition started :: "database \<Rightarrow> Config \<Rightarrow> TaskWorker" where
  "started d c = Start (NewTaskWorker d c)"

subsection \<open>Notions used in the statements\<close>

text \<open>The identifier has an entry in \<^verbatim>\<open>processedTasks\<close>.\<close>

definition marked :: "string \<Rightarrow> TaskWorker \<Rightarrow> bool" where
  "marked taskID w \<longleftrightarrow> processedTasks w taskID \<noteq> None"

text \<open>The identifier whose marker is set while the checker waits to send it.\<close>

fun in_send :: "checker_pc \<Rightarrow> string set" where
  "in_send (CheckSend taskID ts) = {taskID}"
| "in_send _ = {}"

definition sending :: "TaskWorker \<Rightarrow> string set" where
  "sending w = in_send (checker w)"

text \<open>The identifier the processor has received and not yet finished with.\<close>

fun in_hand :: "processor_pc \<Rightarrow> string list" where
  "in_hand (ProcFetch taskID) = [taskID]"
| "in_hand (ProcUpdate taskID) = [taskID]"
| "in_hand _ = []"

text \<open>The number of the worker's goroutines that have been started and have not returned.\<close>

fun checker_live :: "checker_pc \<Rightarrow> nat" where
  "checker_live CheckIdle = 0"
| "checker_live CheckDone = 0"
| "checker_live _ = 1"

fun processor_live :: "processor_pc \<Rightarrow> nat" where
  "processor_live ProcIdle = 0"
| "processor_live ProcDone = 0"
| "processor_live _ = 1"

definition goroutines :: "TaskWorker \<Rightarrow> nat" where
  "goroutines w = checker_live (checker w) + processor_live (processor w)"

text \<open>
  Two invariants of a run. The first ties the wait group, the two channels' closed flags
  and the processor's history to the control points. The second says which identifiers
  have an entry in \<^verbatim>\<open>processedTasks\<close>: those the checker has sent, each once, and
  the one it is sending.
\<close>

definition lifecycle :: "TaskWorker \<Rightarrow> bool" where
  "lifecycle w \<longleftrightarrow>
     wg w = goroutines w
     \<and> stopChannel_closed w = (stopper w \<noteq> StopNotCalled)
     \<and> taskChannel_closed w = (stopper w = StopDone)
     \<and> received w = handled w @ in_hand (processor w)
     \<and> checker w \<noteq> CheckIdle \<and> processor w \<noteq> ProcIdle
     \<and> (stopper w = StopDone \<longrightarrow> wg w = 0)"

definition marks :: "TaskWorker \<Rightarrow> bool" where
  "marks w \<longleftrightarrow>
     dom (processedTasks w) = set (sent w) \<union> sending w
     \<and> distinct (sent w)
     \<and> sending w \<inter> set (sent w) = {}"

text \<open>What a scan of the store would return in this state.\<close>

definition candidates :: "TaskWorker \<Rightarrow> Task list" where
  "candidates w = fst (GetTasksForAutoCompletion (db w) (AutoCompleteMinutes (cfg w)))"

text \<open>The strings of the form sign (optional), then one decimal digit or more.\<close>

definition integer_syntax :: "string \<Rightarrow> bool" where
  "integer_syntax s =
     (case s of
        [] \<Rightarrow> False
      | c # cs \<Rightarrow> if c = CHR ''+'' \<or> c = CHR ''-'' then cs \<noteq> [] \<and> list_all is_digit cs
                  else list_all is_digit s)"

section \<open>Example data\<close>

definition task_a :: Task where
  "task_a = \<lparr>ID = ''a'', UserID = ''u1'', Title = ''write report'', Description = [],
     Status = ''pending'', CreatedAt = 0, UpdatedAt = 0\<rparr>"

definition task_b :: Task where
  "task_b = \<lparr>ID = ''b'', UserID = ''u2'', Title = ''file taxes'', Description = ''done early'',
     Status = ''completed'', CreatedAt = 0, UpdatedAt = 5\<rparr>"

definition task_c :: Task where
  "task_c = \<lparr>ID = ''c'', UserID = ''u1'', Title = ''book flights'', Description = [],
     Status = ''in_progress'', CreatedAt = 7000000000, UpdatedAt = 7000000000\<rparr>"

definition task_e :: Task where
  "task_e = \<lparr>ID = ''e'', UserID = ''u2'', Title = ''call bank'', Description = [],
     Status = ''in_progress'', CreatedAt = 60000000, UpdatedAt = 90000000\<rparr>"

text \<open>
  Two hours after the first tasks were created; the default delay is 30 minutes, so the
  tasks a and e are the candidates of a scan.
\<close>

definition db0 :: database where
  "db0 = \<lparr>tasks = [task_a, task_b, task_c, task_e], NOW = 7200000000, conn_broken = False,
     stream_cut = None, executed = []\<rparr>"

text \<open>The same store when the stream of result rows breaks after the first row.\<close>

definition db0_cut :: database where
  "db0_cut = db0\<lparr>stream_cut := Some 1\<rparr>"

definition db0_broken :: database where
  "db0_broken = db0\<lparr>conn_broken := True\<rparr>"

definition cfg0 :: Config where
  "cfg0 = LoadConfig (\<lambda>key. [])"

text \<open>
  The state after \<^verbatim>\<open>SubmitTask\<close> has queued an identifier and the processor has
  received it, and the state in which the processor has fetched task c, found it in
  progress, and stands before its update.
\<close>

definition fetch_state :: "string \<Rightarrow> TaskWorker" where
  "fetch_state taskID = (started db0 cfg0)\<lparr>logs := [Starting, Started, Submitted taskID],
     received := [taskID], processor := ProcFetch taskID\<rparr>"

definition update_state :: TaskWorker where
  "update_state = (started db0 cfg0)\<lparr>logs := [Starting, Started, Submitted ''c''],
     received := [''c''], processor := ProcUpdate ''c''\<rparr>"

text \<open>
  A race: after the processor's fetch, an HTTP handler completes task c by hand; then the
  processor sends its update.
\<close>

definition db0_manual :: database where
  "db0_manual = db0\<lparr>tasks := [task_a, task_b,
     task_c\<lparr>Status := ''completed'', UpdatedAt := 7100000000\<rparr>, task_e]\<rparr>"

definition race_state :: TaskWorker where
  "race_state = update_state\<lparr>db := db0_manual\<rparr>"

definition raced_state :: TaskWorker where
  "raced_state = race_state\<lparr>db := db0_manual\<lparr>executed := [''c'']\<rparr>,
     logs := [Starting, Started, Submitted ''c'', Completion ''c'' AutoCompleted],
     handled := [''c''], processor := ProcSelect\<rparr>"

definition malformed_env :: environ where
  "malformed_env key =
     (if key = ''AUTO_COMPLETE_MINUTES'' then ''30m''
      else if key = ''JWT_EXPIRY_HOURS'' then ''1d'' else [])"

text \<open>
  A schedule: one scan queues a and e; the processor receives a; \<^verbatim>\<open>Stop\<close> is called
  while e waits in the queue; the processor completes a and, back at its select with
  both cases ready, takes the stop case; the checker takes its stop case; \<^verbatim>\<open>Stop\<close>
  returns.
\<close>

definition drop_schedule :: "event list" where
  "drop_schedule =
     [CheckTick, CheckNext, CheckSent, CheckNext, CheckSent, CheckNext,
      ProcRecv, StopClose, ProcFetched, ProcUpdated, ProcStop, CheckStop, StopFinish]"

text \<open>
  Another schedule: one scan queues a and e; the connection is broken while the processor
  updates a and has recovered when it handles e; then a second scan runs to its end.
\<close>

definition stale_schedule :: "event list" where
  "stale_schedule =
     [CheckTick, CheckNext, CheckSent, CheckNext, CheckSent, CheckNext,
      ProcRecv, ProcFetched, Env db0_broken, ProcUpdated, Env db0,
      ProcRecv, ProcFetched, ProcUpdated,
      CheckTick, CheckNext, CheckNext]"

text \<open>The states these two schedules go through and end in.\<close>

definition queued_state :: TaskWorker where
  "queued_state = (started db0 cfg0)\<lparr>taskChannel := [''a'', ''e''],
     processedTasks := [''a'' \<mapsto> True, ''e'' \<mapsto> True],
     logs := [Starting, Started, Queued ''a'', Queued ''e''], sent := [''a'', ''e'']\<rparr>"

definition dropped_state :: TaskWorker where
  "dropped_state = queued_state\<lparr>
     db := db0\<lparr>tasks := [task_a\<lparr>Status := ''completed'', UpdatedAt := 7200000000\<rparr>,
                         task_b, task_c, task_e],
              executed := [''a'']\<rparr>,
     taskChannel := [''e''], taskChannel_closed := True, stopChannel_closed := True, wg := 0,
     checker := CheckDone, processor := ProcDone, stopper := StopDone,
     logs := [Starting, Started, Queued ''a'', Queued ''e'', Stopping,
              Completion ''a'' AutoCompleted, Stopped],
     received := [''a''], handled := [''a''], queue_at_stop := [''e'']\<rparr>"

definition stale_state :: TaskWorker where
  "stale_state = queued_state\<lparr>
     db := db0\<lparr>tasks := [task_a, task_b, task_c,
                         task_e\<lparr>Status := ''completed'', UpdatedAt := 7200000000\<rparr>],
              executed := [''a'', ''e'']\<rparr>,
     taskChannel := [],
     logs := [Starting, Started, Queued ''a'', Queued ''e'',
              Completion ''a'' (UpdateFailed DriverError), Completion ''e'' AutoCompleted],
     received := [''a'', ''e''], handled := [''a'', ''e'']\<rparr>"

text \<open>The channel has room at the given instant, and nothing else happens.\<close>

definition room_after :: "nat \<Rightarrow> surroundings" where
  "room_after t c = (if c = SendTask then Some t else None)"

text \<open>The state after a hundred calls of \<^verbatim>\<open>SubmitTask\<close> that no one has received.\<close>

definition full_state :: TaskWorker where
  "full_state = (started db0 cfg0)\<lparr>taskChannel := replicate 100 ''a'',
     logs := [Starting, Started] @ replicate 100 (Submitted ''a'')\<rparr>"

text \<open>
  With the channel full, a scan marks a and waits to send it; the timer of that send
  fires.
\<close>

definition blocked_state :: TaskWorker where
  "blocked_state = full_state\<lparr>processedTasks := [''a'' \<mapsto> True],
     checker := CheckSend ''a'' [task_e]\<rparr>"

definition evicted_state :: TaskWorker where
  "evicted_state = full_state\<lparr>checker := CheckLoop [task_e]\<rparr>"

text \<open>
  The state after a hundred calls of \<^verbatim>\<open>SubmitTask\<close> and then \<^verbatim>\<open>Stop\<close>, with both
  loops taking their stop case: the queue is full and closed.
\<close>

definition closed_full_state :: TaskWorker where
  "closed_full_state = full_state\<lparr>taskChannel_closed := True, stopChannel_closed := True,
     wg := 0, checker := CheckDone, processor := ProcDone, stopper := StopDone,
     logs := [Starting, Started] @ replicate 100 (Submitted ''a'') @ [Stopping, Stopped],
     queue_at_stop := replicate 100 ''a''\<rparr>"

text \<open>Two values that are not numerals of an \<^verbatim>\<open>int\<close>.\<close>

definition overflow_env :: environ where
  "overflow_env key =
     (if key = ''AUTO_COMPLETE_MINUTES'' then ''9223372036854775808''
      else if key = ''JWT_EXPIRY_HOURS'' then ''99999999999999999999m'' else [])"

text \<open>The stop signal is given at once and the channel never has room.\<close>

definition stop_only :: surroundings where
  "stop_only c = (if c = StopSignal then Some 0 else None)"

section \<open>The store operations\<close>

lemma AutoCompleteTask_tasks:
  "tasks (snd (AutoCompleteTask d taskID)) =
     (if conn_broken d then tasks d
      else map (\<lambda>t. if ID t = taskID \<and> (Status t = ''pending'' \<or> Status t = ''in_progress'')
                     then t\<lparr>Status := ''completed'', UpdatedAt := NOW d\<rparr> else t) (tasks d))"
  by (simp add: AutoCompleteTask_def)

lemma AutoCompleteTask_row:
  assumes "i < length (tasks d)"
  shows "\<exists>s u. tasks (snd (AutoCompleteTask d taskID)) ! i = (tasks d ! i)\<lparr>Status := s, UpdatedAt := u\<rparr>"
proof (cases "\<not> conn_broken d \<and> ID (tasks d ! i) = taskID
    \<and> (Status (tasks d ! i) = ''pending'' \<or> Status (tasks d ! i) = ''in_progress'')")
  case True
  with assms have "tasks (snd (AutoCompleteTask d taskID)) ! i
      = (tasks d ! i)\<lparr>Status := ''completed'', UpdatedAt := NOW d\<rparr>"
    by (simp add: AutoCompleteTask_tasks)
  then show ?thesis by blast
next
  case False
  with assms have "tasks (snd (AutoCompleteTask d taskID)) ! i = tasks d ! i"
    by (auto simp: AutoCompleteTask_tasks)
  then have "tasks (snd (AutoCompleteTask d taskID)) ! i
      = (tasks d ! i)\<lparr>Status := Status (tasks d ! i), UpdatedAt := UpdatedAt (tasks d ! i)\<rparr>"
    by simp
  then show ?thesis by blast
qed

lemma AutoCompleteTask_other_row:
  assumes "i < length (tasks d)" and "ID (tasks d ! i) \<noteq> taskID"
  shows "tasks (snd (AutoCompleteTask d taskID)) ! i = tasks d ! i"
  using assms by (simp add: AutoCompleteTask_tasks)

lemma AutoCompleteTask_completed_row:
  assumes "i < length (tasks d)" and "Status (tasks d ! i) = ''completed''"
  shows "tasks (snd (AutoCompleteTask d taskID)) ! i = tasks d ! i"
  using assms by (simp add: AutoCompleteTask_tasks)

text \<open>
  C9. The worker's auto-completion write keeps the number and order of the rows; in every
  row it can change the status and updated_at columns only, so id, user_id, title,
  description and created_at are as before; and a row of another task is not changed at
  all. The clock and the connection are not touched either.
\<close>

theorem AutoCompleteTask_frame:
  "length (tasks (snd (AutoCompleteTask d taskID))) = length (tasks d)
   \<and> (\<forall>i < length (tasks d).
        (\<exists>s u. tasks (snd (AutoCompleteTask d taskID)) ! i = (tasks d ! i)\<lparr>Status := s, UpdatedAt := u\<rparr>)
        \<and> ID (tasks (snd (AutoCompleteTask d taskID)) ! i) = ID (tasks d ! i)
        \<and> UserID (tasks (snd (AutoCompleteTask d taskID)) ! i) = UserID (tasks d ! i)
        \<and> Title (tasks (snd (AutoCompleteTask d taskID)) ! i) = Title (tasks d ! i)
        \<and> Description (tasks (snd (AutoCompleteTask d taskID)) ! i) = Description (tasks d ! i)
        \<and> CreatedAt (tasks (snd (AutoCompleteTask d taskID)) ! i) = CreatedAt (tasks d ! i)
        \<and> (ID (tasks d ! i) \<noteq> taskID
             \<longrightarrow> tasks (snd (AutoCompleteTask d taskID)) ! i = tasks d ! i))
   \<and> NOW (snd (AutoCompleteTask d taskID)) = NOW d
   \<and> conn_broken (snd (AutoCompleteTask d taskID)) = conn_broken d"
proof -
  have len: "length (tasks (snd (AutoCompleteTask d taskID))) = length (tasks d)"
    by (simp add: AutoCompleteTask_tasks)
  have rest: "NOW (snd (AutoCompleteTask d taskID)) = NOW d
      \<and> conn_broken (snd (AutoCompleteTask d taskID)) = conn_broken d"
    by (simp add: AutoCompleteTask_def)
  have row: "(\<exists>s u. tasks (snd (AutoCompleteTask d taskID)) ! i = (tasks d ! i)\<lparr>Status := s, UpdatedAt := u\<rparr>)
        \<and> ID (tasks (snd (AutoCompleteTask d taskID)) ! i) = ID (tasks d ! i)
        \<and> UserID (tasks (snd (AutoCompleteTask d taskID)) ! i) = UserID (tasks d ! i)
        \<and> Title (tasks (snd (AutoCompleteTask d taskID)) ! i) = Title (tasks d ! i)
        \<and> Description (tasks (snd (AutoCompleteTask d taskID)) ! i) = Description (tasks d ! i)
        \<and> CreatedAt (tasks (snd (AutoCompleteTask d taskID)) ! i) = CreatedAt (tasks d ! i)
        \<and> (ID (tasks d ! i) \<noteq> taskID
             \<longrightarrow> tasks (snd (AutoCompleteTask d taskID)) ! i = tasks d ! i)"
    if lt: "i < length (tasks d)" for i
  proof -
    obtain s u where eq: "tasks (snd (AutoCompleteTask d taskID)) ! i = (tasks d ! i)\<lparr>Status := s, UpdatedAt := u\<rparr>"
      using AutoCompleteTask_row [OF lt] by blast
    show ?thesis
      using eq AutoCompleteTask_other_row [OF lt] by auto
  qed
  from len rest row show ?thesis by blast
qed

theorem AutoCompleteTask_frame_witness:
  "tasks (snd (AutoCompleteTask db0 ''a'')) ! 0 = task_a\<lparr>Status := ''completed'', UpdatedAt := 7200000000\<rparr>
   \<and> ID (tasks (snd (AutoCompleteTask db0 ''a'')) ! 0) = ''a''
   \<and> UserID (tasks (snd (AutoCompleteTask db0 ''a'')) ! 0) = ''u1''
   \<and> Title (tasks (snd (AutoCompleteTask db0 ''a'')) ! 0) = ''write report''
   \<and> CreatedAt (tasks (snd (AutoCompleteTask db0 ''a'')) ! 0) = 0
   \<and> ID (tasks db0 ! 2) \<noteq> ''a''
   \<and> tasks (snd (AutoCompleteTask db0 ''a'')) ! 2 = task_c"
proof -
  have l0: "(0::nat) < length (tasks db0)" and l2: "(2::nat) < length (tasks db0)"
    by (simp_all add: db0_def)
  have t0: "tasks db0 ! 0 = task_a" and t2: "tasks db0 ! 2 = task_c"
    by (simp_all add: db0_def)
  have ne: "ID (tasks db0 ! 2) \<noteq> ''a''"
    by (simp add: db0_def task_c_def)
  have direct: "tasks (snd (AutoCompleteTask db0 ''a'')) ! 0 = task_a\<lparr>Status := ''completed'', UpdatedAt := 7200000000\<rparr>"
    by (simp add: AutoCompleteTask_def db0_def task_a_def)
  from AutoCompleteTask_frame [of db0 "''a''"] l0 l2
  have f0: "ID (tasks (snd (AutoCompleteTask db0 ''a'')) ! 0) = ID (tasks db0 ! 0)
      \<and> UserID (tasks (snd (AutoCompleteTask db0 ''a'')) ! 0) = UserID (tasks db0 ! 0)
      \<and> Title (tasks (snd (AutoCompleteTask db0 ''a'')) ! 0) = Title (tasks db0 ! 0)
      \<and> CreatedAt (tasks (snd (AutoCompleteTask db0 ''a'')) ! 0) = CreatedAt (tasks db0 ! 0)"
    and f2: "ID (tasks db0 ! 2) \<noteq> ''a'' \<longrightarrow> tasks (snd (AutoCompleteTask db0 ''a'')) ! 2 = tasks db0 ! 2"
    by blast+
  from f0 f2 ne direct show ?thesis
    by (simp add: t0 t2 task_a_def)
qed

section \<open>The scan\<close>

lemma scan_whole:
  assumes "\<not> conn_broken d" and "stream_cut d = None"
  shows "GetTasksForAutoCompletion d m
    = (filter (\<lambda>t. (Status t = ''pending'' \<or> Status t = ''in_progress'')
                   \<and> CreatedAt t < NOW d - minute * m) (tasks d), None)"
  using assms by (simp add: GetTasksForAutoCompletion_def)

lemma scan_sound:
  assumes "t \<in> set (fst (GetTasksForAutoCompletion d m))"
  shows "t \<in> set (tasks d) \<and> (Status t = ''pending'' \<or> Status t = ''in_progress'')
    \<and> CreatedAt t < NOW d - minute * m"
  using assms
  by (auto simp: GetTasksForAutoCompletion_def Let_def dest!: in_set_takeD
      split: if_splits option.splits)

lemma db0_scan: "GetTasksForAutoCompletion db0 30 = ([task_a, task_e], None)"
  by (simp add: GetTasksForAutoCompletion_def db0_def minute_def task_a_def task_b_def task_c_def task_e_def)

lemma CheckTick_loop:
  assumes "checker w = CheckSelect" and "step CheckTick w = Some w'" and "checker w' = CheckLoop ts"
  shows "GetTasksForAutoCompletion (db w) (AutoCompleteMinutes (cfg w)) = (ts, None)"
proof (cases "GetTasksForAutoCompletion (db w) (AutoCompleteMinutes (cfg w))")
  case (Pair xs err)
  show ?thesis
  proof (cases err)
    case None
    with Pair assms show ?thesis by auto
  next
    case (Some e)
    with Pair assms show ?thesis by auto
  qed
qed

lemma cfg0_minutes: "AutoCompleteMinutes cfg0 = 30"
  by (simp add: cfg0_def LoadConfig_def getEnvInt_def)

text \<open>
  C5 fails on the code when the stream of result rows breaks. The error of the query and
  the error of reading a row are returned, the error of the iteration is not: with the
  stream broken after the first row, the scan of this store returns task a alone and no
  error, although task e is in the table, in progress and older than the cutoff, and the
  checker takes the list with a alone as the tasks of its loop. By the lemmas above, a
  scan over a whole stream returns exactly the rows the claim names, and no scan returns
  any other row.
\<close>

theorem scan_partial_result:
  "\<not> conn_broken db0_cut
   \<and> GetTasksForAutoCompletion db0_cut 30 = ([task_a], None)
   \<and> task_e \<in> set (tasks db0_cut)
   \<and> Status task_e = ''in_progress''
   \<and> CreatedAt task_e < NOW db0_cut - minute * 30
   \<and> task_e \<notin> set (fst (GetTasksForAutoCompletion db0_cut 30))
   \<and> AutoCompleteMinutes (cfg (started db0_cut cfg0)) = 30
   \<and> map_option checker (step CheckTick (started db0_cut cfg0)) = Some (CheckLoop [task_a])"
proof -
  have g: "GetTasksForAutoCompletion db0_cut 30 = ([task_a], None)"
    by (simp add: GetTasksForAutoCompletion_def db0_cut_def db0_def minute_def
        task_a_def task_b_def task_c_def task_e_def)
  have e: "task_e \<in> set (tasks db0_cut) \<and> Status task_e = ''in_progress''
      \<and> CreatedAt task_e < NOW db0_cut - minute * 30 \<and> \<not> conn_broken db0_cut"
    by (simp add: db0_cut_def db0_def minute_def task_e_def)
  have n: "task_e \<noteq> task_a"
    by (simp add: task_a_def task_e_def)
  have c: "AutoCompleteMinutes (cfg (started db0_cut cfg0)) = 30"
    by (simp add: started_def Start_def NewTaskWorker_def cfg0_minutes)
  have s: "step CheckTick (started db0_cut cfg0) = Some ((started db0_cut cfg0)\<lparr>checker := CheckLoop [task_a]\<rparr>)"
    by (simp add: started_def Start_def NewTaskWorker_def cfg0_minutes g)
  from g e n c s show ?thesis by (simp del: step.simps)
qed

section \<open>Configuration\<close>

lemmas atoi_eval = Atoi_def ParseInt_def ParseInt_range_def ParseUint_def is_digit_def digit_val_def

lemma ParseUint_digits_result:
  "ParseUint_digits n s = (0, Some ErrSyntax)
   \<or> ParseUint_digits n s = (2 ^ 64 - 1, Some ErrRange)
   \<or> (\<exists>un. ParseUint_digits n s = (un, None))"
  by (induction n s rule: ParseUint_digits.induct) auto

lemma ParseUint_result:
  "ParseUint s = (0, Some ErrSyntax)
   \<or> ParseUint s = (2 ^ 64 - 1, Some ErrRange)
   \<or> (\<exists>un. ParseUint s = (un, None))"
  using ParseUint_digits_result [of 0 s] by (simp add: ParseUint_def)

lemma ParseInt_range_result:
  assumes "r = (0, Some ErrSyntax) \<or> r = (2 ^ 64 - 1, Some ErrRange) \<or> (\<exists>un. r = (un, None))"
  shows "ParseInt_range neg r = (0, Some ErrSyntax)
   \<or> ParseInt_range neg r = (if neg then - (2 ^ 63) else 2 ^ 63 - 1, Some ErrRange)
   \<or> (\<exists>n. ParseInt_range neg r = (n, None))"
  using assms by (cases neg) (auto simp: ParseInt_range_def split: if_splits)

lemma ParseInt_result:
  "ParseInt s = (0, Some ErrSyntax)
   \<or> ParseInt s = (if take 1 s = ''-'' then - (2 ^ 63) else 2 ^ 63 - 1, Some ErrRange)
   \<or> (\<exists>n. ParseInt s = (n, None))"
proof (cases s)
  case Nil
  then show ?thesis by (simp add: ParseInt_def)
next
  case (Cons c cs)
  let ?s1 = "if c = CHR ''+'' \<or> c = CHR ''-'' then cs else s"
  have "ParseInt s = ParseInt_range (c = CHR ''-'') (ParseUint ?s1)"
    using Cons by (simp add: ParseInt_def)
  with ParseInt_range_result [OF ParseUint_result [of ?s1], of "c = CHR ''-''"] Cons
  show ?thesis by simp
qed

lemma Atoi_digits_result:
  "Atoi_digits n s = (0, Some ErrSyntax) \<or> (\<exists>m. Atoi_digits n s = (m, None))"
  by (induction n s rule: Atoi_digits.induct) auto

lemma Atoi_result:
  "Atoi s = (0, Some ErrSyntax)
   \<or> Atoi s = (if take 1 s = ''-'' then - (2 ^ 63) else 2 ^ 63 - 1, Some ErrRange)
   \<or> (\<exists>n. Atoi s = (n, None))"
proof (cases s)
  case Nil
  then show ?thesis by (simp add: Atoi_def ParseInt_def)
next
  case (Cons c cs)
  show ?thesis
  proof (cases "length s < 19")
    case False
    with Cons have "Atoi s = ParseInt s" by (simp add: Atoi_def)
    with ParseInt_result [of s] show ?thesis by simp
  next
    case True
    let ?s1 = "if c = CHR ''-'' \<or> c = CHR ''+'' then cs else s"
    from Atoi_digits_result [of 0 ?s1] True Cons show ?thesis
      by (auto simp: Atoi_def)
  qed
qed

lemma Atoi_digits_syntax:
  "\<not> list_all is_digit s \<Longrightarrow> Atoi_digits n s = (0, Some ErrSyntax)"
  by (induction n s rule: Atoi_digits.induct) auto

lemma Atoi_short_syntax:
  assumes "v \<noteq> []" and "length v < 19" and "\<not> integer_syntax v"
  shows "Atoi v = (0, Some ErrSyntax)"
proof (cases v)
  case Nil
  with assms show ?thesis by simp
next
  case (Cons c cs)
  show ?thesis
  proof (cases "c = CHR ''-'' \<or> c = CHR ''+''")
    case True
    show ?thesis
    proof (cases "cs = []")
      case True
      with Cons \<open>c = CHR ''-'' \<or> c = CHR ''+''\<close> assms(2) show ?thesis by (auto simp: Atoi_def)
    next
      case False
      with True Cons assms(3) have "\<not> list_all is_digit cs"
        by (auto simp: integer_syntax_def)
      from Atoi_digits_syntax [OF this] True False Cons assms(2) show ?thesis
        by (auto simp: Atoi_def)
    qed
  next
    case False
    with Cons assms(3) have "\<not> list_all is_digit v"
      by (auto simp: integer_syntax_def)
    from Atoi_digits_syntax [OF this] False Cons assms(2) show ?thesis
      by (auto simp: Atoi_def)
  qed
qed

lemma getEnvInt_set:
  assumes "env key \<noteq> []"
  shows "getEnvInt env key defaultValue = fst (Atoi (env key))"
  using assms by (simp add: getEnvInt_def)

lemma Atoi_syntax_0:
  assumes "snd (Atoi v) = Some ErrSyntax"
  shows "fst (Atoi v) = 0"
  using Atoi_result [of v] assms by auto

lemma Atoi_range_bound:
  assumes "snd (Atoi v) = Some ErrRange"
  shows "fst (Atoi v) = (if take 1 v = ''-'' then - (2 ^ 63) else 2 ^ 63 - 1)"
  using Atoi_result [of v] assms by auto

lemma Atoi_errors:
  "snd (Atoi v) = None \<or> snd (Atoi v) = Some ErrSyntax \<or> snd (Atoi v) = Some ErrRange"
  using Atoi_result [of v] by auto

text \<open>
  C10, as amended. A variable that is set is read through \<open>Atoi\<close> and its error is
  dropped, so the default is never used for it. When the error is a syntax error (as for
  every string of fewer than 19 characters that is not a numeral) the value is 0; when it
  is a range error the value is the nearest bound of \<^verbatim>\<open>int\<close>, the least one after a
  minus sign and the greatest one otherwise. So a \<^verbatim>\<open>JWT_EXPIRY_HOURS\<close> with a syntax
  error gives 0 hours, and an \<^verbatim>\<open>AUTO_COMPLETE_MINUTES\<close> with a syntax error gives a delay
  of 0 minutes, with which a scan over a whole stream returns every pending or
  in-progress task created before the instant of the scan.
\<close>

theorem getEnvInt_parse_error:
  "(env key \<noteq> [] \<longrightarrow> getEnvInt env key defaultValue = fst (Atoi (env key)))
   \<and> (env key \<noteq> [] \<and> snd (Atoi (env key)) = Some ErrSyntax \<longrightarrow>
        getEnvInt env key defaultValue = 0)
   \<and> (env key \<noteq> [] \<and> snd (Atoi (env key)) = Some ErrRange \<longrightarrow>
        getEnvInt env key defaultValue
          = (if take 1 (env key) = ''-'' then - (2 ^ 63) else 2 ^ 63 - 1))
   \<and> (snd (Atoi v) = None \<or> snd (Atoi v) = Some ErrSyntax \<or> snd (Atoi v) = Some ErrRange)
   \<and> (v \<noteq> [] \<and> length v < 19 \<and> \<not> integer_syntax v \<longrightarrow> Atoi v = (0, Some ErrSyntax))
   \<and> (env ''JWT_EXPIRY_HOURS'' \<noteq> [] \<and> snd (Atoi (env ''JWT_EXPIRY_HOURS'')) = Some ErrSyntax \<longrightarrow>
        JWTExpiryHours (LoadConfig env) = 0)
   \<and> (env ''AUTO_COMPLETE_MINUTES'' \<noteq> []
        \<and> snd (Atoi (env ''AUTO_COMPLETE_MINUTES'')) = Some ErrSyntax \<longrightarrow>
        AutoCompleteMinutes (LoadConfig env) = 0
        \<and> (\<forall>d. \<not> conn_broken d \<and> stream_cut d = None \<longrightarrow>
              GetTasksForAutoCompletion d (AutoCompleteMinutes (LoadConfig env))
              = (filter (\<lambda>t. (Status t = ''pending'' \<or> Status t = ''in_progress'') \<and> CreatedAt t < NOW d)
                   (tasks d), None)))"
proof -
  have a: "getEnvInt env key defaultValue = fst (Atoi (env key))" if "env key \<noteq> []"
    using that by (rule getEnvInt_set)
  have b: "getEnvInt env key defaultValue = 0"
    if "env key \<noteq> []" and "snd (Atoi (env key)) = Some ErrSyntax"
    using that by (simp add: getEnvInt_set Atoi_syntax_0)
  have c: "getEnvInt env key defaultValue = (if take 1 (env key) = ''-'' then - (2 ^ 63) else 2 ^ 63 - 1)"
    if "env key \<noteq> []" and "snd (Atoi (env key)) = Some ErrRange"
    using that getEnvInt_set [of env key defaultValue] Atoi_range_bound [of "env key"] by simp
  have j: "JWTExpiryHours (LoadConfig env) = 0"
    if "env ''JWT_EXPIRY_HOURS'' \<noteq> []" and "snd (Atoi (env ''JWT_EXPIRY_HOURS'')) = Some ErrSyntax"
    using that by (simp add: LoadConfig_def getEnvInt_set Atoi_syntax_0)
  have m: "AutoCompleteMinutes (LoadConfig env) = 0"
    if "env ''AUTO_COMPLETE_MINUTES'' \<noteq> []" and "snd (Atoi (env ''AUTO_COMPLETE_MINUTES'')) = Some ErrSyntax"
    using that by (simp add: LoadConfig_def getEnvInt_set Atoi_syntax_0)
  have s: "GetTasksForAutoCompletion d 0
      = (filter (\<lambda>t. (Status t = ''pending'' \<or> Status t = ''in_progress'') \<and> CreatedAt t < NOW d)
           (tasks d), None)"
    if "\<not> conn_broken d \<and> stream_cut d = None" for d
    using that scan_whole [of d 0] by simp
  from a b c j m s Atoi_errors [of v] Atoi_short_syntax [of v] show ?thesis
    by simp
qed

lemma malformed_env_facts:
  "malformed_env ''AUTO_COMPLETE_MINUTES'' = ''30m''"
  "malformed_env ''JWT_EXPIRY_HOURS'' = ''1d''"
  "Atoi ''30m'' = (0, Some ErrSyntax)"
  "Atoi ''1d'' = (0, Some ErrSyntax)"
  "\<not> integer_syntax ''30m''"
  by (simp_all add: malformed_env_def atoi_eval integer_syntax_def)

lemma overflow_env_facts:
  "overflow_env ''AUTO_COMPLETE_MINUTES'' = ''9223372036854775808''"
  "overflow_env ''JWT_EXPIRY_HOURS'' = ''99999999999999999999m''"
  "Atoi ''9223372036854775808'' = (9223372036854775807, Some ErrRange)"
  "Atoi ''99999999999999999999m'' = (9223372036854775807, Some ErrRange)"
  "Atoi ''-9223372036854775809'' = (- 9223372036854775808, Some ErrRange)"
  by (simp_all add: overflow_env_def atoi_eval)

theorem getEnvInt_parse_error_witness:
  "malformed_env ''AUTO_COMPLETE_MINUTES'' = ''30m''
   \<and> snd (Atoi ''30m'') = Some ErrSyntax
   \<and> getEnvInt malformed_env ''AUTO_COMPLETE_MINUTES'' 30
       = fst (Atoi (malformed_env ''AUTO_COMPLETE_MINUTES''))
   \<and> getEnvInt malformed_env ''AUTO_COMPLETE_MINUTES'' 30 = 0
   \<and> length ''30m'' < 19 \<and> \<not> integer_syntax ''30m''
   \<and> AutoCompleteMinutes (LoadConfig malformed_env) = 0
   \<and> malformed_env ''JWT_EXPIRY_HOURS'' = ''1d''
   \<and> snd (Atoi ''1d'') = Some ErrSyntax
   \<and> JWTExpiryHours (LoadConfig malformed_env) = 0
   \<and> overflow_env ''AUTO_COMPLETE_MINUTES'' = ''9223372036854775808''
   \<and> snd (Atoi ''9223372036854775808'') = Some ErrRange
   \<and> getEnvInt overflow_env ''AUTO_COMPLETE_MINUTES'' 30 = 2 ^ 63 - 1
   \<and> \<not> conn_broken db0 \<and> stream_cut db0 = None
   \<and> fst (GetTasksForAutoCompletion db0 (AutoCompleteMinutes (LoadConfig malformed_env)))
       = [task_a, task_c, task_e]"
proof -
  note m = malformed_env_facts
  note o = overflow_env_facts
  have f: "filter (\<lambda>t. (Status t = ''pending'' \<or> Status t = ''in_progress'') \<and> CreatedAt t < NOW db0) (tasks db0)
      = [task_a, task_c, task_e]"
    by (simp add: db0_def task_a_def task_b_def task_c_def task_e_def)
  have nb: "\<not> conn_broken db0 \<and> stream_cut db0 = None" by (simp add: db0_def)
  note t = getEnvInt_parse_error [of malformed_env "''AUTO_COMPLETE_MINUTES''" 30 "''30m''"]
  have e1: "malformed_env ''AUTO_COMPLETE_MINUTES'' \<noteq> []"
    "snd (Atoi (malformed_env ''AUTO_COMPLETE_MINUTES'')) = Some ErrSyntax"
    "malformed_env ''JWT_EXPIRY_HOURS'' \<noteq> []"
    "snd (Atoi (malformed_env ''JWT_EXPIRY_HOURS'')) = Some ErrSyntax"
    by (simp_all add: m)
  from t e1
  have g1: "getEnvInt malformed_env ''AUTO_COMPLETE_MINUTES'' 30
      = fst (Atoi (malformed_env ''AUTO_COMPLETE_MINUTES''))"
    and g2: "getEnvInt malformed_env ''AUTO_COMPLETE_MINUTES'' 30 = 0"
    and z: "AutoCompleteMinutes (LoadConfig malformed_env) = 0"
    and h: "JWTExpiryHours (LoadConfig malformed_env) = 0"
    and q: "\<forall>d. \<not> conn_broken d \<and> stream_cut d = None \<longrightarrow>
            GetTasksForAutoCompletion d (AutoCompleteMinutes (LoadConfig malformed_env))
            = (filter (\<lambda>t. (Status t = ''pending'' \<or> Status t = ''in_progress'') \<and> CreatedAt t < NOW d)
                 (tasks d), None)"
    by blast+
  from q nb have sc: "fst (GetTasksForAutoCompletion db0 (AutoCompleteMinutes (LoadConfig malformed_env)))
      = filter (\<lambda>t. (Status t = ''pending'' \<or> Status t = ''in_progress'') \<and> CreatedAt t < NOW db0) (tasks db0)"
    by simp
  have e2: "overflow_env ''AUTO_COMPLETE_MINUTES'' \<noteq> []"
    "snd (Atoi (overflow_env ''AUTO_COMPLETE_MINUTES'')) = Some ErrRange"
    "take 1 (overflow_env ''AUTO_COMPLETE_MINUTES'') \<noteq> ''-''"
    by (simp_all add: o)
  from getEnvInt_parse_error [of overflow_env "''AUTO_COMPLETE_MINUTES''" 30 "''30m''"] e2
  have r: "getEnvInt overflow_env ''AUTO_COMPLETE_MINUTES'' 30 = 2 ^ 63 - 1"
    by simp
  from m o g1 g2 z h sc f nb r show ?thesis by simp
qed

text \<open>
  C10 as stated fails for a range error: a numeral beyond the range of \<^verbatim>\<open>int\<close>, and
  also an overflowing run of digits followed by a letter, does not parse, its error is
  dropped, and the value is the greatest \<^verbatim>\<open>int\<close>, not 0.
\<close>

theorem getEnvInt_range_error_not_zero:
  "overflow_env ''AUTO_COMPLETE_MINUTES'' = ''9223372036854775808''
   \<and> Atoi ''9223372036854775808'' = (9223372036854775807, Some ErrRange)
   \<and> getEnvInt overflow_env ''AUTO_COMPLETE_MINUTES'' 30 = 9223372036854775807
   \<and> AutoCompleteMinutes (LoadConfig overflow_env) = 9223372036854775807
   \<and> overflow_env ''JWT_EXPIRY_HOURS'' = ''99999999999999999999m''
   \<and> \<not> integer_syntax ''99999999999999999999m''
   \<and> Atoi ''99999999999999999999m'' = (9223372036854775807, Some ErrRange)
   \<and> getEnvInt overflow_env ''JWT_EXPIRY_HOURS'' 24 = 9223372036854775807
   \<and> JWTExpiryHours (LoadConfig overflow_env) = 9223372036854775807"
proof -
  have "\<not> integer_syntax ''99999999999999999999m''"
    by (simp add: integer_syntax_def is_digit_def)
  with overflow_env_facts show ?thesis
    by (simp add: LoadConfig_def getEnvInt_def)
qed

text \<open>For comparison: an unset variable gives the default, a numeral its value.\<close>

lemma getEnvInt_unset: "env key = [] \<Longrightarrow> getEnvInt env key defaultValue = defaultValue"
  by (simp add: getEnvInt_def)

lemma getEnvInt_numeral: "getEnvInt (\<lambda>key. ''-45'') key defaultValue = - 45"
  by (simp add: getEnvInt_def atoi_eval)

section \<open>A failing scan\<close>

lemma CheckTick_error:
  assumes "checker w = CheckSelect"
    and "GetTasksForAutoCompletion (db w) (AutoCompleteMinutes (cfg w)) = (ts, Some err)"
  shows "step CheckTick w = Some (w\<lparr>logs := logs w @ [ErrorFetching err]\<rparr>)"
  using assms by simp

lemma CheckTick_error_run:
  assumes "checker w = CheckSelect"
    and "GetTasksForAutoCompletion (db w) (AutoCompleteMinutes (cfg w)) = (ts, Some err)"
  shows "run (replicate n CheckTick) w = Some (w\<lparr>logs := logs w @ replicate n (ErrorFetching err)\<rparr>)"
  using assms
proof (induction n arbitrary: w)
  case 0
  then show ?case by simp
next
  case (Suc n)
  let ?w = "w\<lparr>logs := logs w @ [ErrorFetching err]\<rparr>"
  have st: "step CheckTick w = Some ?w"
    using Suc.prems by (rule CheckTick_error)
  have "run (replicate n CheckTick) ?w = Some (?w\<lparr>logs := logs ?w @ replicate n (ErrorFetching err)\<rparr>)"
    using Suc.prems by (intro Suc.IH) simp_all
  with st show ?case by (simp del: step.simps)
qed

lemma checker_exits_by_stop_only:
  assumes "step e w = Some w'" and "checker w' = CheckDone" and "checker w \<noteq> CheckDone"
  shows "e = CheckStop \<and> stopChannel_closed w"
  using assms
  by (cases e) (auto split: if_splits checker_pc.splits processor_pc.splits list.splits option.splits prod.splits)


text \<open>
  C7. On a tick whose query fails, the checker logs the error and nothing else changes:
  nothing is queued, the in-flight map is as before, and the checker is back at its
  select, where the next tick is taken; any number of failing ticks in a row leaves it
  there. The checker's loop is left only through the stop case of its select.
\<close>

theorem scan_error_skips_tick:
  "(checker w = CheckSelect
      \<and> GetTasksForAutoCompletion (db w) (AutoCompleteMinutes (cfg w)) = (ts, Some err) \<longrightarrow>
        step CheckTick w = Some (w\<lparr>logs := logs w @ [ErrorFetching err]\<rparr>)
        \<and> map_option taskChannel (step CheckTick w) = Some (taskChannel w)
        \<and> map_option sent (step CheckTick w) = Some (sent w)
        \<and> map_option processedTasks (step CheckTick w) = Some (processedTasks w)
        \<and> map_option checker (step CheckTick w) = Some CheckSelect
        \<and> run (replicate n CheckTick) w = Some (w\<lparr>logs := logs w @ replicate n (ErrorFetching err)\<rparr>))
   \<and> (step e w = Some w' \<and> checker w' = CheckDone \<and> checker w \<noteq> CheckDone \<longrightarrow>
        e = CheckStop \<and> stopChannel_closed w)"
proof -
  have a: "step CheckTick w = Some (w\<lparr>logs := logs w @ [ErrorFetching err]\<rparr>)
        \<and> map_option taskChannel (step CheckTick w) = Some (taskChannel w)
        \<and> map_option sent (step CheckTick w) = Some (sent w)
        \<and> map_option processedTasks (step CheckTick w) = Some (processedTasks w)
        \<and> map_option checker (step CheckTick w) = Some CheckSelect
        \<and> run (replicate n CheckTick) w = Some (w\<lparr>logs := logs w @ replicate n (ErrorFetching err)\<rparr>)"
    if c: "checker w = CheckSelect"
      and g: "GetTasksForAutoCompletion (db w) (AutoCompleteMinutes (cfg w)) = (ts, Some err)"
  proof -
    have st: "step CheckTick w = Some (w\<lparr>logs := logs w @ [ErrorFetching err]\<rparr>)"
      using c g by (rule CheckTick_error)
    have rn: "run (replicate n CheckTick) w = Some (w\<lparr>logs := logs w @ replicate n (ErrorFetching err)\<rparr>)"
      using c g by (rule CheckTick_error_run)
    from st rn c show ?thesis by (simp del: step.simps)
  qed
  from a checker_exits_by_stop_only [of e w w'] show ?thesis by blast
qed

lemma db0_broken_scan: "GetTasksForAutoCompletion db0_broken 30 = ([], Some DriverError)"
  by (simp add: GetTasksForAutoCompletion_def db0_broken_def)

theorem scan_error_skips_tick_witness:
  "checker (started db0_broken cfg0) = CheckSelect
   \<and> GetTasksForAutoCompletion (db (started db0_broken cfg0)) (AutoCompleteMinutes (cfg (started db0_broken cfg0)))
       = ([], Some DriverError)
   \<and> map_option logs (step CheckTick (started db0_broken cfg0)) = Some [Starting, Started, ErrorFetching DriverError]
   \<and> map_option taskChannel (step CheckTick (started db0_broken cfg0)) = Some []
   \<and> map_option checker (step CheckTick (started db0_broken cfg0)) = Some CheckSelect
   \<and> map_option logs (run (replicate 3 CheckTick) (started db0_broken cfg0))
       = Some [Starting, Started, ErrorFetching DriverError, ErrorFetching DriverError, ErrorFetching DriverError]
   \<and> map_option checker (run [StopClose] (started db0 cfg0)) = Some CheckSelect
   \<and> map_option checker (run [StopClose, CheckStop] (started db0 cfg0)) = Some CheckDone
   \<and> map_option stopChannel_closed (run [StopClose] (started db0 cfg0)) = Some True"
proof -
  let ?w = "started db0_broken cfg0"
  have c: "checker ?w = CheckSelect"
    by (simp add: started_def Start_def NewTaskWorker_def)
  have g: "GetTasksForAutoCompletion (db ?w) (AutoCompleteMinutes (cfg ?w)) = ([], Some DriverError)"
    by (simp add: started_def Start_def NewTaskWorker_def cfg0_minutes db0_broken_scan)
  have l: "logs ?w = [Starting, Started]" and q: "taskChannel ?w = []"
    by (simp_all add: started_def Start_def NewTaskWorker_def)
  have n3: "replicate 3 (ErrorFetching DriverError)
      = [ErrorFetching DriverError, ErrorFetching DriverError, ErrorFetching DriverError]"
    by (simp add: numeral_3_eq_3)
  from scan_error_skips_tick [of ?w "[]" DriverError 3] c g
  have 1: "step CheckTick ?w = Some (?w\<lparr>logs := logs ?w @ [ErrorFetching DriverError]\<rparr>)"
    and 2: "map_option taskChannel (step CheckTick ?w) = Some (taskChannel ?w)"
    and 3: "map_option checker (step CheckTick ?w) = Some CheckSelect"
    and 4: "run (replicate 3 CheckTick) ?w = Some (?w\<lparr>logs := logs ?w @ replicate 3 (ErrorFetching DriverError)\<rparr>)"
    by blast+
  let ?v = "started db0 cfg0"
  have s1: "step StopClose ?v = Some (?v\<lparr>stopChannel_closed := True, stopper := StopWait,
                   queue_at_stop := taskChannel ?v, logs := logs ?v @ [Stopping]\<rparr>)"
    by (simp add: started_def Start_def NewTaskWorker_def)
  have s2: "map_option checker (run [StopClose, CheckStop] ?v) = Some CheckDone"
    by (simp add: started_def Start_def NewTaskWorker_def)
  have s3: "map_option checker (run [StopClose] ?v) = Some CheckSelect
      \<and> map_option stopChannel_closed (run [StopClose] ?v) = Some True"
    by (simp add: started_def Start_def NewTaskWorker_def)
  from c g 1 2 3 4 l q n3 s2 s3 show ?thesis
    by (simp del: step.simps)
qed

section \<open>autoCompleteTask\<close>

lemma GetTaskByID_cases:
  "GetTaskByID d taskID = (Some zero_Task, Some DriverError)
   \<or> GetTaskByID d taskID = (None, Some (ErrorsNew ''task not found''))
   \<or> (\<exists>t. GetTaskByID d taskID = (Some t, None) \<and> t \<in> set (tasks d) \<and> ID t = taskID \<and> \<not> conn_broken d)"
proof (cases "conn_broken d")
  case True
  then show ?thesis by (simp add: GetTaskByID_def)
next
  case False
  show ?thesis
  proof (cases "find (\<lambda>t. ID t = taskID) (tasks d)")
    case None
    with False show ?thesis by (simp add: GetTaskByID_def)
  next
    case (Some t)
    then have "t \<in> set (tasks d) \<and> ID t = taskID"
      by (auto simp: find_Some_iff)
    with False Some show ?thesis by (simp add: GetTaskByID_def)
  qed
qed

lemma GetTaskByID_deleted:
  assumes "\<not> conn_broken d" and "taskID \<notin> ID ` set (tasks d)"
  shows "GetTaskByID d taskID = (None, Some (ErrorsNew ''task not found''))"
proof -
  have "find (\<lambda>t. ID t = taskID) (tasks d) = None"
    using assms(2) by (auto simp: find_None_iff)
  with assms(1) show ?thesis by (simp add: GetTaskByID_def)
qed

lemma check_fetch_error:
  assumes "snd (GetTaskByID d taskID) = Some err"
  shows "autoCompleteTask_check d taskID = Some (TaskNotFound err)"
  using assms by (cases "GetTaskByID d taskID") (simp add: autoCompleteTask_check_def)

lemma check_completed:
  assumes "GetTaskByID d taskID = (Some t, None)" and "Status t = ''completed''"
  shows "autoCompleteTask_check d taskID = Some AlreadyCompleted"
  using assms by (simp add: autoCompleteTask_check_def)

lemma check_open:
  assumes "GetTaskByID d taskID = (Some t, None)" and "Status t \<noteq> ''completed''"
  shows "autoCompleteTask_check d taskID = None"
  using assms by (simp add: autoCompleteTask_check_def)

lemma check_no_panic: "autoCompleteTask_check d taskID \<noteq> Some NilDereference"
  using GetTaskByID_cases [of d taskID]
  by (auto simp: autoCompleteTask_check_def split: if_splits)

lemma update_no_panic: "fst (autoCompleteTask_update d taskID) \<noteq> NilDereference"
  by (simp add: autoCompleteTask_update_def AutoCompleteTask_def)

lemma autoCompleteTask_no_panic: "fst (autoCompleteTask d taskID) \<noteq> NilDereference"
  using check_no_panic [of d taskID] update_no_panic [of d taskID]
  by (cases "autoCompleteTask_check d taskID") (simp_all add: autoCompleteTask_def)

lemma autoCompleteTask_fetch_error:
  assumes "snd (GetTaskByID d taskID) = Some err"
  shows "autoCompleteTask d taskID = (TaskNotFound err, d)"
  by (simp add: autoCompleteTask_def check_fetch_error [OF assms])

lemma autoCompleteTask_completed:
  assumes "GetTaskByID d taskID = (Some t, None)" and "Status t = ''completed''"
  shows "autoCompleteTask d taskID = (AlreadyCompleted, d)"
  by (simp add: autoCompleteTask_def check_completed [OF assms])

lemma ProcFetched_skip:
  assumes p: "processor w = ProcFetch taskID"
    and c: "autoCompleteTask_check (db w) taskID = Some c"
  shows "step ProcFetched w = Some (w\<lparr>logs := logs w @ [Completion taskID c],
            handled := handled w @ [taskID], processor := ProcSelect\<rparr>)"
  using p c check_no_panic [of "db w" taskID] by auto

text \<open>
  C4. A fetch that finds no row reports "task not found". Whenever the fetch reports an
  error, and whenever the fetched task is already completed, \<open>autoCompleteTask\<close> logs
  one line and returns with the store as it was (no update is sent). It never
  dereferences a nil task. In the processor, such an identifier counts as handled and
  the processor is back at its select.
\<close>

theorem skips_deleted_or_completed:
  "(\<not> conn_broken d \<and> taskID \<notin> ID ` set (tasks d) \<longrightarrow>
      GetTaskByID d taskID = (None, Some (ErrorsNew ''task not found'')))
   \<and> (snd (GetTaskByID d taskID) = Some err \<longrightarrow> autoCompleteTask d taskID = (TaskNotFound err, d))
   \<and> (GetTaskByID d taskID = (Some t, None) \<and> Status t = ''completed'' \<longrightarrow>
      autoCompleteTask d taskID = (AlreadyCompleted, d))
   \<and> fst (autoCompleteTask d taskID) \<noteq> NilDereference
   \<and> (processor w = ProcFetch taskID \<and> snd (GetTaskByID (db w) taskID) = Some err \<longrightarrow>
      step ProcFetched w = Some (w\<lparr>logs := logs w @ [Completion taskID (TaskNotFound err)],
            handled := handled w @ [taskID], processor := ProcSelect\<rparr>))
   \<and> (processor w = ProcFetch taskID \<and> GetTaskByID (db w) taskID = (Some t, None)
        \<and> Status t = ''completed'' \<longrightarrow>
      step ProcFetched w = Some (w\<lparr>logs := logs w @ [Completion taskID AlreadyCompleted],
            handled := handled w @ [taskID], processor := ProcSelect\<rparr>))"
  using GetTaskByID_deleted [of d taskID] autoCompleteTask_fetch_error [of d taskID err]
    autoCompleteTask_completed [of d taskID t] autoCompleteTask_no_panic [of d taskID]
    ProcFetched_skip [of w taskID "TaskNotFound err"] check_fetch_error [of "db w" taskID err]
    ProcFetched_skip [of w taskID AlreadyCompleted] check_completed [of "db w" taskID t]
  by blast


lemma fetch_state_run:
  "run [SubmitSent taskID, ProcRecv] (started db0 cfg0) = Some (fetch_state taskID)"
  by (simp add: fetch_state_def started_def Start_def NewTaskWorker_def taskChannel_cap_def)

lemma update_state_run:
  "run [SubmitSent ''c'', ProcRecv, ProcFetched] (started db0 cfg0) = Some update_state"
  by (simp add: update_state_def started_def Start_def NewTaskWorker_def taskChannel_cap_def
      autoCompleteTask_check_def GetTaskByID_def db0_def task_a_def task_b_def task_c_def)

lemma db0_fetch_zz: "GetTaskByID db0 ''zz'' = (None, Some (ErrorsNew ''task not found''))"
  by (simp add: GetTaskByID_def db0_def task_a_def task_b_def task_c_def task_e_def)

lemma db0_fetch_b: "GetTaskByID db0 ''b'' = (Some task_b, None)"
  by (simp add: GetTaskByID_def db0_def task_a_def task_b_def)

lemma db0_fetch_a: "GetTaskByID db0 ''a'' = (Some task_a, None)"
  by (simp add: GetTaskByID_def db0_def task_a_def)

theorem skips_deleted_or_completed_witness:
  "\<not> conn_broken db0 \<and> ''zz'' \<notin> ID ` set (tasks db0)
   \<and> GetTaskByID db0 ''zz'' = (None, Some (ErrorsNew ''task not found''))
   \<and> autoCompleteTask db0 ''zz'' = (TaskNotFound (ErrorsNew ''task not found''), db0)
   \<and> GetTaskByID db0 ''b'' = (Some task_b, None) \<and> Status task_b = ''completed''
   \<and> autoCompleteTask db0 ''b'' = (AlreadyCompleted, db0)
   \<and> run [SubmitSent ''zz'', ProcRecv] (started db0 cfg0) = Some (fetch_state ''zz'')
   \<and> processor (fetch_state ''zz'') = ProcFetch ''zz''
   \<and> step ProcFetched (fetch_state ''zz'')
       = Some ((fetch_state ''zz'')\<lparr>logs := logs (fetch_state ''zz'') @ [Completion ''zz'' (TaskNotFound (ErrorsNew ''task not found''))],
            handled := handled (fetch_state ''zz'') @ [''zz''], processor := ProcSelect\<rparr>)
   \<and> processor (fetch_state ''b'') = ProcFetch ''b''
   \<and> step ProcFetched (fetch_state ''b'')
       = Some ((fetch_state ''b'')\<lparr>logs := logs (fetch_state ''b'') @ [Completion ''b'' AlreadyCompleted],
            handled := handled (fetch_state ''b'') @ [''b''], processor := ProcSelect\<rparr>)"
proof -
  have nb: "\<not> conn_broken db0" and nz: "''zz'' \<notin> ID ` set (tasks db0)"
    by (simp_all add: db0_def task_a_def task_b_def task_c_def task_e_def)
  have sb: "Status task_b = ''completed''" by (simp add: task_b_def)
  have pz: "processor (fetch_state ''zz'') = ProcFetch ''zz''"
    and pb: "processor (fetch_state ''b'') = ProcFetch ''b''"
    and dz: "db (fetch_state ''zz'') = db0" and db: "db (fetch_state ''b'') = db0"
    by (simp_all add: fetch_state_def started_def Start_def NewTaskWorker_def)
  have ez: "snd (GetTaskByID db0 ''zz'') = Some (ErrorsNew ''task not found'')"
    by (simp add: db0_fetch_zz)
  note z = skips_deleted_or_completed [of db0 "''zz''" "ErrorsNew ''task not found''" task_b "fetch_state ''zz''"]
  note b = skips_deleted_or_completed [of db0 "''b''" DriverError task_b "fetch_state ''b''"]
  from z nb nz ez pz dz
  have 1: "GetTaskByID db0 ''zz'' = (None, Some (ErrorsNew ''task not found''))"
    and 2: "autoCompleteTask db0 ''zz'' = (TaskNotFound (ErrorsNew ''task not found''), db0)"
    and 3: "step ProcFetched (fetch_state ''zz'')
       = Some ((fetch_state ''zz'')\<lparr>logs := logs (fetch_state ''zz'') @ [Completion ''zz'' (TaskNotFound (ErrorsNew ''task not found''))],
            handled := handled (fetch_state ''zz'') @ [''zz''], processor := ProcSelect\<rparr>)"
    by simp_all
  from b db0_fetch_b sb pb db
  have 4: "autoCompleteTask db0 ''b'' = (AlreadyCompleted, db0)"
    and 5: "step ProcFetched (fetch_state ''b'')
       = Some ((fetch_state ''b'')\<lparr>logs := logs (fetch_state ''b'') @ [Completion ''b'' AlreadyCompleted],
            handled := handled (fetch_state ''b'') @ [''b''], processor := ProcSelect\<rparr>)"
    by simp_all
  from nb nz 1 2 3 4 5 db0_fetch_b sb pz pb fetch_state_run [of "''zz''"]
  show ?thesis by (simp del: step.simps run.simps)
qed

subsection \<open>The update after a successful check\<close>

lemma find_map_ID:
  assumes "\<And>x. ID (f x) = ID x"
  shows "find (\<lambda>t. ID t = k) (map f xs) = map_option f (find (\<lambda>t. ID t = k) xs)"
  by (induction xs) (simp_all add: assms)

lemma fetched_not_broken:
  assumes "GetTaskByID d taskID = (Some t, None)"
  shows "\<not> conn_broken d \<and> find (\<lambda>t. ID t = taskID) (tasks d) = Some t \<and> t \<in> set (tasks d) \<and> ID t = taskID"
  using assms GetTaskByID_cases [of d taskID]
  by (auto simp: GetTaskByID_def split: if_splits option.splits)

lemma autoCompleteTask_open:
  assumes f: "GetTaskByID d taskID = (Some t, None)"
    and s: "Status t = ''pending'' \<or> Status t = ''in_progress''"
  shows "autoCompleteTask d taskID = (AutoCompleted, snd (AutoCompleteTask d taskID))
    \<and> executed (snd (autoCompleteTask d taskID)) = executed d @ [taskID]
    \<and> GetTaskByID (snd (autoCompleteTask d taskID)) taskID
        = (Some (t\<lparr>Status := ''completed'', UpdatedAt := NOW d\<rparr>), None)"
proof -
  from fetched_not_broken [OF f]
  have nb: "\<not> conn_broken d" and fi: "find (\<lambda>t. ID t = taskID) (tasks d) = Some t" and i: "ID t = taskID"
    by simp_all
  from s have nc: "Status t \<noteq> ''completed''" by auto
  have a: "autoCompleteTask d taskID = autoCompleteTask_update d taskID"
    by (simp add: autoCompleteTask_def check_open [OF f nc])
  have u: "autoCompleteTask_update d taskID = (AutoCompleted, snd (AutoCompleteTask d taskID))"
    using nb by (simp add: autoCompleteTask_update_def AutoCompleteTask_def)
  let ?f = "\<lambda>t. if ID t = taskID \<and> (Status t = ''pending'' \<or> Status t = ''in_progress'')
                     then t\<lparr>Status := ''completed'', UpdatedAt := NOW d\<rparr> else t"
  have "find (\<lambda>t. ID t = taskID) (map ?f (tasks d)) = map_option ?f (find (\<lambda>t. ID t = taskID) (tasks d))"
    by (rule find_map_ID) simp
  with fi i s have "find (\<lambda>t. ID t = taskID) (tasks (snd (AutoCompleteTask d taskID)))
      = Some (t\<lparr>Status := ''completed'', UpdatedAt := NOW d\<rparr>)"
    using nb by (simp add: AutoCompleteTask_tasks)
  moreover have "\<not> conn_broken (snd (AutoCompleteTask d taskID))"
    using nb by (simp add: AutoCompleteTask_def)
  ultimately have g: "GetTaskByID (snd (AutoCompleteTask d taskID)) taskID
      = (Some (t\<lparr>Status := ''completed'', UpdatedAt := NOW d\<rparr>), None)"
    by (simp add: GetTaskByID_def)
  have e: "executed (snd (AutoCompleteTask d taskID)) = executed d @ [taskID]"
    by (simp add: AutoCompleteTask_def)
  from a u g e show ?thesis
    by simp
qed

section \<open>The conditional update\<close>

lemma autoCompleteTask_tasks:
  "tasks (snd (autoCompleteTask d taskID)) = tasks d
   \<or> tasks (snd (autoCompleteTask d taskID)) = tasks (snd (AutoCompleteTask d taskID))"
  by (cases "autoCompleteTask_check d taskID")
     (simp_all add: autoCompleteTask_def autoCompleteTask_update_def split: prod.splits option.splits)

lemma AutoCompleteTask_changed_row:
  assumes "i < length (tasks d)"
    and "tasks (snd (AutoCompleteTask d taskID)) ! i \<noteq> tasks d ! i"
  shows "ID (tasks d ! i) = taskID
    \<and> (Status (tasks d ! i) = ''pending'' \<or> Status (tasks d ! i) = ''in_progress'')"
  using assms by (auto simp: AutoCompleteTask_tasks split: if_splits)

lemma issued_only_open:
  assumes ok: "status_ok d"
    and ex: "executed (snd (autoCompleteTask d taskID)) \<noteq> executed d"
  shows "\<exists>t. GetTaskByID d taskID = (Some t, None)
    \<and> (Status t = ''pending'' \<or> Status t = ''in_progress'')"
proof -
  consider (err) err where "snd (GetTaskByID d taskID) = Some err"
    | (found) t where "GetTaskByID d taskID = (Some t, None)" "t \<in> set (tasks d)"
    using GetTaskByID_cases [of d taskID] by auto
  then show ?thesis
  proof cases
    case err
    from autoCompleteTask_fetch_error [OF err] ex show ?thesis by simp
  next
    case found
    from ok found(2) have v: "valid_status (Status t)"
      by (simp add: status_ok_def list_all_iff)
    have "Status t \<noteq> ''completed''"
    proof
      assume "Status t = ''completed''"
      from autoCompleteTask_completed [OF found(1) this] ex show False by simp
    qed
    with v have "Status t = ''pending'' \<or> Status t = ''in_progress''"
      by (auto simp: valid_status_def)
    with found(1) show ?thesis by blast
  qed
qed

lemma AutoCompleteTask_noop:
  assumes "\<not> conn_broken d"
    and "\<forall>t \<in> set (tasks d). ID t = taskID \<longrightarrow> Status t \<noteq> ''pending'' \<and> Status t \<noteq> ''in_progress''"
  shows "AutoCompleteTask d taskID = (None, d\<lparr>executed := executed d @ [taskID]\<rparr>)"
proof -
  have "map (\<lambda>t. if ID t = taskID \<and> (Status t = ''pending'' \<or> Status t = ''in_progress'')
                     then t\<lparr>Status := ''completed'', UpdatedAt := NOW d\<rparr> else t) (tasks d) = tasks d"
    using assms(2) by (intro map_idI) auto
  with assms(1) show ?thesis by (simp add: AutoCompleteTask_def)
qed

lemma step_db:
  assumes "step e w = Some w'" and "e \<noteq> ProcUpdated" and "\<forall>d'. e \<noteq> Env d'"
  shows "db w' = db w"
  using assms
  by (cases e) (auto split: if_splits checker_pc.splits processor_pc.splits list.splits option.splits prod.splits)

lemma step_ProcUpdated_db:
  assumes "step ProcUpdated w = Some w'"
  shows "\<exists>taskID. processor w = ProcUpdate taskID \<and> db w' = snd (AutoCompleteTask (db w) taskID)"
  using assms
  by (auto simp: autoCompleteTask_update_def split: processor_pc.splits prod.splits option.splits)

lemma worker_step_keeps_completed:
  assumes st: "step e w = Some w'" and ne: "\<forall>d'. e \<noteq> Env d'"
    and i: "i < length (tasks (db w))" and c: "Status (tasks (db w) ! i) = ''completed''"
  shows "tasks (db w') ! i = tasks (db w) ! i"
proof (cases "e = ProcUpdated")
  case True
  with st obtain taskID where "db w' = snd (AutoCompleteTask (db w) taskID)"
    using step_ProcUpdated_db by blast
  with AutoCompleteTask_completed_row [OF i c] show ?thesis by simp
next
  case False
  with step_db [OF st] ne show ?thesis by simp
qed

lemma autoCompleteTask_keeps_completed:
  assumes i: "i < length (tasks d)" and c: "Status (tasks d ! i) = ''completed''"
  shows "tasks (snd (autoCompleteTask d taskID)) ! i = tasks d ! i"
  using autoCompleteTask_tasks [of d taskID] AutoCompleteTask_completed_row [OF i c, of taskID]
  by auto

subsection \<open>The statuses the program writes\<close>

text \<open>
  Every write of the program keeps the statuses within pending, in_progress and
  completed: the insert writes pending, the service's update writes a validated status or
  the one it fetched, the worker's update writes completed.
\<close>

lemma status_ok_AutoCompleteTask:
  assumes "status_ok d"
  shows "status_ok (snd (AutoCompleteTask d taskID))"
  using assms
  by (auto simp: AutoCompleteTask_def status_ok_def valid_status_def list_all_iff)

lemma status_ok_CreateTask:
  assumes "status_ok d"
  shows "status_ok (snd (snd (CreateTask d uuid task)))"
  using assms
  by (auto simp: CreateTask_def status_ok_def valid_status_def list_all_iff)

lemma status_ok_DeleteTask:
  assumes "status_ok d"
  shows "status_ok (snd (DeleteTask d taskID))"
  using assms
  by (auto simp: DeleteTask_def status_ok_def list_all_iff)

lemma status_ok_UpdateTask:
  assumes "status_ok d" and "valid_status (Status task)"
  shows "status_ok (snd (snd (UpdateTask d task)))"
  using assms
  by (auto simp: UpdateTask_def status_ok_def list_all_iff)

lemma status_ok_TaskService_UpdateTask:
  assumes ok: "status_ok d"
    and r: "TaskService_UpdateTask d userID taskID req isAdmin = Returns (res, err, d')"
  shows "status_ok d'"
proof (cases "GetTaskByID d taskID")
  case (Pair fetched e)
  show ?thesis
  proof (cases e)
    case (Some x)
    with Pair r ok show ?thesis by (simp add: TaskService_UpdateTask_def)
  next
    case None
    show ?thesis
    proof (cases fetched)
      case None
      with Pair \<open>e = None\<close> r show ?thesis by (simp add: TaskService_UpdateTask_def)
    next
      case (Some task)
      with Pair \<open>e = None\<close> have "task \<in> set (tasks d)"
        using fetched_not_broken [of d taskID task] by simp
      with ok have v: "valid_status (Status task)"
        by (simp add: status_ok_def list_all_iff)
      let ?t1 = "if reqTitle req \<noteq> [] then task\<lparr>Title := reqTitle req\<rparr> else task"
      let ?t2 = "if reqDescription req \<noteq> [] then ?t1\<lparr>Description := reqDescription req\<rparr> else ?t1"
      let ?t3 = "if reqStatus req \<noteq> [] then ?t2\<lparr>Status := reqStatus req\<rparr> else ?t2"
      show ?thesis
      proof (cases "(\<not> isAdmin \<and> UserID task \<noteq> userID)
          \<or> (reqStatus req \<noteq> [] \<and> \<not> validStatuses (reqStatus req))")
        case True
        with Pair \<open>e = None\<close> Some r ok show ?thesis
          by (auto simp: TaskService_UpdateTask_def split: if_splits)
      next
        case False
        then have "valid_status (Status ?t3)"
          using v by (auto simp: validStatuses_def valid_status_def)
        from status_ok_UpdateTask [OF ok this] have "status_ok (snd (snd (UpdateTask d ?t3)))" .
        moreover from False Pair \<open>e = None\<close> Some r have "d' = snd (snd (UpdateTask d ?t3))"
          by (auto simp: TaskService_UpdateTask_def Let_def split: prod.splits option.splits)
        ultimately show ?thesis by simp
      qed
    qed
  qed
qed

lemma status_ok_worker_step:
  assumes ok: "status_ok (db w)" and st: "step e w = Some w'" and ne: "\<forall>d'. e \<noteq> Env d'"
  shows "status_ok (db w')"
proof (cases "e = ProcUpdated")
  case True
  with st obtain taskID where "db w' = snd (AutoCompleteTask (db w) taskID)"
    using step_ProcUpdated_db by blast
  with status_ok_AutoCompleteTask [OF ok] show ?thesis by simp
next
  case False
  with step_db [OF st] ne ok show ?thesis by simp
qed


text \<open>
  C1. When the re-fetched task is pending or in progress, \<open>autoCompleteTask\<close> sends the
  conditional update, after which the task is completed with updated_at set to NOW().
  When it is already completed, \<open>autoCompleteTask\<close> returns with the store as it was,
  so no update is sent and updated_at stays. With the statuses the program writes, the
  update is sent only in the first case. Whatever the store holds when the update
  arrives, a completed row is left as it is, only rows of the given identifier with
  status pending or in_progress change, and an update that matches no row reports no
  error. No step of the worker changes a completed row.
\<close>

theorem conditional_complete:
  "(GetTaskByID d taskID = (Some t, None) \<and> (Status t = ''pending'' \<or> Status t = ''in_progress'') \<longrightarrow>
      autoCompleteTask d taskID = (AutoCompleted, snd (AutoCompleteTask d taskID))
      \<and> executed (snd (autoCompleteTask d taskID)) = executed d @ [taskID]
      \<and> GetTaskByID (snd (autoCompleteTask d taskID)) taskID
          = (Some (t\<lparr>Status := ''completed'', UpdatedAt := NOW d\<rparr>), None))
   \<and> (GetTaskByID d taskID = (Some t, None) \<and> Status t = ''completed'' \<longrightarrow>
      autoCompleteTask d taskID = (AlreadyCompleted, d))
   \<and> (status_ok d \<and> executed (snd (autoCompleteTask d taskID)) \<noteq> executed d \<longrightarrow>
      (\<exists>t. GetTaskByID d taskID = (Some t, None) \<and> (Status t = ''pending'' \<or> Status t = ''in_progress'')))
   \<and> (i < length (tasks d) \<and> Status (tasks d ! i) = ''completed'' \<longrightarrow>
      tasks (snd (AutoCompleteTask d taskID)) ! i = tasks d ! i
      \<and> tasks (snd (autoCompleteTask d taskID)) ! i = tasks d ! i)
   \<and> (i < length (tasks d) \<and> tasks (snd (AutoCompleteTask d taskID)) ! i \<noteq> tasks d ! i \<longrightarrow>
      ID (tasks d ! i) = taskID
      \<and> (Status (tasks d ! i) = ''pending'' \<or> Status (tasks d ! i) = ''in_progress''))
   \<and> (\<not> conn_broken d
        \<and> (\<forall>t \<in> set (tasks d). ID t = taskID \<longrightarrow> Status t \<noteq> ''pending'' \<and> Status t \<noteq> ''in_progress'') \<longrightarrow>
      AutoCompleteTask d taskID = (None, d\<lparr>executed := executed d @ [taskID]\<rparr>))
   \<and> (step e w = Some w' \<and> (\<forall>d'. e \<noteq> Env d') \<and> j < length (tasks (db w))
        \<and> Status (tasks (db w) ! j) = ''completed'' \<longrightarrow>
      tasks (db w') ! j = tasks (db w) ! j)"
  using autoCompleteTask_open [of d taskID t] autoCompleteTask_completed [of d taskID t]
    issued_only_open [of d taskID] AutoCompleteTask_completed_row [of i d taskID]
    autoCompleteTask_keeps_completed [of i d taskID] AutoCompleteTask_changed_row [of i d taskID]
    AutoCompleteTask_noop [of d taskID] worker_step_keeps_completed [of e w w' j]
  by blast


lemma run_append:
  "run (es @ fs) w = (case run es w of None \<Rightarrow> None | Some w' \<Rightarrow> run fs w')"
  by (induction es arbitrary: w) (simp_all split: option.splits)

lemma race_steps:
  "step (Env db0_manual) update_state = Some race_state"
  "step ProcUpdated race_state = Some raced_state"
  by (simp_all add: race_state_def raced_state_def update_state_def db0_manual_def db0_def
      started_def Start_def NewTaskWorker_def autoCompleteTask_update_def AutoCompleteTask_def
      task_a_def task_b_def task_c_def task_e_def)

theorem conditional_complete_witness:
  "GetTaskByID db0 ''a'' = (Some task_a, None) \<and> Status task_a = ''pending''
   \<and> autoCompleteTask db0 ''a'' = (AutoCompleted, snd (AutoCompleteTask db0 ''a''))
   \<and> executed (snd (autoCompleteTask db0 ''a'')) = [''a'']
   \<and> GetTaskByID (snd (autoCompleteTask db0 ''a'')) ''a''
       = (Some (task_a\<lparr>Status := ''completed'', UpdatedAt := 7200000000\<rparr>), None)
   \<and> GetTaskByID db0 ''b'' = (Some task_b, None) \<and> Status task_b = ''completed''
   \<and> autoCompleteTask db0 ''b'' = (AlreadyCompleted, db0)
   \<and> status_ok db0 \<and> executed (snd (autoCompleteTask db0 ''a'')) \<noteq> executed db0
   \<and> tasks db0 ! 1 = task_b
   \<and> tasks (snd (AutoCompleteTask db0 ''b'')) ! 1 = task_b
   \<and> tasks (snd (AutoCompleteTask db0 ''a'')) ! 0 \<noteq> tasks db0 ! 0
   \<and> AutoCompleteTask db0 ''b'' = (None, db0\<lparr>executed := [''b'']\<rparr>)
   \<and> run [SubmitSent ''c'', ProcRecv, ProcFetched, Env db0_manual] (started db0 cfg0) = Some race_state
   \<and> step ProcUpdated race_state = Some raced_state
   \<and> Status (tasks (db race_state) ! 2) = ''completed''
   \<and> tasks (db raced_state) ! 2 = task_c\<lparr>Status := ''completed'', UpdatedAt := 7100000000\<rparr>"
proof -
  have sa: "Status task_a = ''pending''" and sb: "Status task_b = ''completed''"
    by (simp_all add: task_a_def task_b_def)
  have ok: "status_ok db0"
    by (simp add: status_ok_def valid_status_def db0_def task_a_def task_b_def task_c_def task_e_def)
  have e0: "executed db0 = []" and n0: "NOW db0 = 7200000000" and nb: "\<not> conn_broken db0"
    and l1: "(1::nat) < length (tasks db0)" and l0: "(0::nat) < length (tasks db0)"
    and t1: "tasks db0 ! 1 = task_b" and t0: "tasks db0 ! 0 = task_a"
    by (simp_all add: db0_def)
  have c0: "tasks (snd (AutoCompleteTask db0 ''a'')) ! 0 \<noteq> tasks db0 ! 0"
    by (simp add: AutoCompleteTask_tasks db0_def task_a_def)
  have nob: "\<forall>t \<in> set (tasks db0). ID t = ''b'' \<longrightarrow> Status t \<noteq> ''pending'' \<and> Status t \<noteq> ''in_progress''"
    by (simp add: db0_def task_a_def task_b_def task_c_def task_e_def)
  have rl: "(2::nat) < length (tasks (db race_state))"
    and rc: "Status (tasks (db race_state) ! 2) = ''completed''"
    and rt: "tasks (db race_state) ! 2 = task_c\<lparr>Status := ''completed'', UpdatedAt := 7100000000\<rparr>"
    by (simp_all add: race_state_def db0_manual_def)
  have rr: "run [SubmitSent ''c'', ProcRecv, ProcFetched, Env db0_manual] (started db0 cfg0) = Some race_state"
    using run_append [of "[SubmitSent ''c'', ProcRecv, ProcFetched]" "[Env db0_manual]" "started db0 cfg0"]
      update_state_run race_steps(1)
    by (simp del: step.simps)
  note a = conditional_complete [of db0 "''a''" task_a 0 ProcUpdated race_state raced_state 2]
  note b = conditional_complete [of db0 "''b''" task_b 1 ProcUpdated race_state raced_state 2]
  from a db0_fetch_a sa
  have a1: "autoCompleteTask db0 ''a'' = (AutoCompleted, snd (AutoCompleteTask db0 ''a''))"
    and a2: "executed (snd (autoCompleteTask db0 ''a'')) = executed db0 @ [''a'']"
    and a3: "GetTaskByID (snd (autoCompleteTask db0 ''a'')) ''a''
          = (Some (task_a\<lparr>Status := ''completed'', UpdatedAt := NOW db0\<rparr>), None)"
    by blast+
  from a l0 c0 t0 have a4: "ID task_a = ''a'' \<and> (Status task_a = ''pending'' \<or> Status task_a = ''in_progress'')"
    by simp
  from b db0_fetch_b sb have b1: "autoCompleteTask db0 ''b'' = (AlreadyCompleted, db0)"
    by blast
  from b l1 t1 sb have b2: "tasks (snd (AutoCompleteTask db0 ''b'')) ! 1 = tasks db0 ! 1"
    by simp
  from b nb nob have b3: "AutoCompleteTask db0 ''b'' = (None, db0\<lparr>executed := executed db0 @ [''b'']\<rparr>)"
    by blast
  have ne: "\<forall>d'. ProcUpdated \<noteq> Env d'" by simp
  from a race_steps(2) ne rl rc have r: "tasks (db raced_state) ! 2 = tasks (db race_state) ! 2"
    by blast
  have a5: "executed (snd (autoCompleteTask db0 ''a'')) \<noteq> executed db0"
    using a2 by simp
  from a ok a5 have a6: "\<exists>t. GetTaskByID db0 ''a'' = (Some t, None) \<and> (Status t = ''pending'' \<or> Status t = ''in_progress'')"
    by blast
  from db0_fetch_a sa a1 a2 a3 db0_fetch_b sb b1 ok a5 t1 b2 c0 b3 rr race_steps(2) rc r rt e0 n0
  show ?thesis by (simp del: step.simps run.simps)
qed

section \<open>The select statements\<close>

lemma earliest_le:
  assumes "Some t \<in> set xs"
  shows "\<exists>u. earliest xs = Some u \<and> u \<le> t"
  using assms
proof (induction xs rule: earliest.induct)
  case 1
  then show ?case by simp
next
  case (2 xs)
  then show ?case by simp
next
  case (3 v xs)
  then show ?case by (cases "earliest xs") (auto simp: min_def)
qed

lemma ends_by_member:
  assumes "c \<in> set sel" and "ready_at sur c = Some t"
  shows "ends_by sel sur t"
proof -
  from assms have "Some t \<in> set (map (ready_at sur) sel)" by force
  from earliest_le [OF this] show ?thesis
    by (auto simp: ends_by_def select_time_def)
qed

lemma ends_by_mono: "ends_by sel sur t \<Longrightarrow> t \<le> t' \<Longrightarrow> ends_by sel sur t'"
  by (auto simp: ends_by_def split: option.splits)

lemma send_select_time:
  "select_time [SendTask, After k] sur
     = (case sur SendTask of None \<Rightarrow> Some k | Some t \<Rightarrow> Some (min t k))"
  by (simp add: select_time_def ready_at_def split: option.splits)

lemma send_select_outcomes_early:
  assumes "sur SendTask = Some t" and "t < k"
  shows "select_outcomes [SendTask, After k] sur = [(SendTask, t)]"
  using assms by (simp add: select_outcomes_def send_select_time ready_at_def min_def)

lemma send_select_outcomes_late:
  assumes "sur SendTask = None \<or> (\<exists>t. sur SendTask = Some t \<and> k < t)"
  shows "select_outcomes [SendTask, After k] sur = [(After k, k)]"
  using assms by (auto simp: select_outcomes_def send_select_time ready_at_def min_def)

lemma send_select_outcomes_bound:
  "select_outcomes [SendTask, After k] sur \<noteq> []
   \<and> (\<forall>r \<in> set (select_outcomes [SendTask, After k] sur). snd r \<le> k)"
  by (cases "sur SendTask") (auto simp: select_outcomes_def send_select_time ready_at_def min_def)

text \<open>
  C6, as amended. The checker's wait on its ticker and the processor's wait on the queue
  are selects with the stop signal among their cases, and each has ended by the instant
  the signal is given. The checker's bounded send and the wait of \<open>SubmitTask\<close> select
  between the send and a timer only: the stop signal is not among their cases and has no
  influence on when they end, which is by the send or else by the timer, after 100
  milliseconds and 5 seconds at the latest.
\<close>

theorem stop_signal_in_selects:
  "(sur StopSignal = Some t \<longrightarrow>
      ends_by checkAndQueueTasks_select sur t \<and> ends_by processTasksFromChannel_select sur t)
   \<and> StopSignal \<in> set checkAndQueueTasks_select \<and> StopSignal \<in> set processTasksFromChannel_select
   \<and> StopSignal \<notin> set findAndQueueTasks_select \<and> StopSignal \<notin> set SubmitTask_select
   \<and> select_time findAndQueueTasks_select (sur(StopSignal := x)) = select_time findAndQueueTasks_select sur
   \<and> select_time SubmitTask_select (sur(StopSignal := x)) = select_time SubmitTask_select sur
   \<and> ends_by findAndQueueTasks_select sur (100 * Millisecond)
   \<and> ends_by SubmitTask_select sur (5 * Second)"
proof -
  have a: "ends_by checkAndQueueTasks_select sur t \<and> ends_by processTasksFromChannel_select sur t"
    if "sur StopSignal = Some t"
  proof -
    from that have r: "ready_at sur StopSignal = Some t" by (simp add: ready_at_def)
    have "ends_by checkAndQueueTasks_select sur t"
      by (rule ends_by_member [OF _ r]) (simp add: checkAndQueueTasks_select_def)
    moreover have "ends_by processTasksFromChannel_select sur t"
      by (rule ends_by_member [OF _ r]) (simp add: processTasksFromChannel_select_def)
    ultimately show ?thesis by simp
  qed
  have b: "StopSignal \<in> set checkAndQueueTasks_select \<and> StopSignal \<in> set processTasksFromChannel_select
      \<and> StopSignal \<notin> set findAndQueueTasks_select \<and> StopSignal \<notin> set SubmitTask_select"
    by (simp add: checkAndQueueTasks_select_def processTasksFromChannel_select_def
        findAndQueueTasks_select_def SubmitTask_select_def)
  have c: "select_time findAndQueueTasks_select (sur(StopSignal := x)) = select_time findAndQueueTasks_select sur
      \<and> select_time SubmitTask_select (sur(StopSignal := x)) = select_time SubmitTask_select sur"
    by (simp add: findAndQueueTasks_select_def SubmitTask_select_def send_select_time)
  have d: "ends_by findAndQueueTasks_select sur (100 * Millisecond)"
    by (rule ends_by_member [of "After (100 * Millisecond)"])
       (simp_all add: findAndQueueTasks_select_def ready_at_def)
  have e: "ends_by SubmitTask_select sur (5 * Second)"
    by (rule ends_by_member [of "After (5 * Second)"])
       (simp_all add: SubmitTask_select_def ready_at_def)
  from a b c d e show ?thesis by blast
qed

theorem stop_signal_in_selects_witness:
  "stop_only StopSignal = Some 0
   \<and> ends_by checkAndQueueTasks_select stop_only 0
   \<and> ends_by processTasksFromChannel_select stop_only 0
   \<and> select_outcomes checkAndQueueTasks_select stop_only = [(StopSignal, 0)]
   \<and> select_outcomes processTasksFromChannel_select stop_only = [(StopSignal, 0)]"
proof -
  have s: "stop_only StopSignal = Some 0" by (simp add: stop_only_def)
  have o: "select_outcomes checkAndQueueTasks_select stop_only = [(StopSignal, 0)]
      \<and> select_outcomes processTasksFromChannel_select stop_only = [(StopSignal, 0)]"
    by (simp add: select_outcomes_def select_time_def ready_at_def stop_only_def
        checkAndQueueTasks_select_def processTasksFromChannel_select_def)
  from stop_signal_in_selects [of stop_only 0] s o show ?thesis by blast
qed

text \<open>
  C6 as stated fails for the two sends: with the stop signal given at once and a channel
  that stays full, neither select has ended at that instant; each ends by its timer.
\<close>

theorem stop_not_observed_while_sending:
  "stop_only StopSignal = Some 0
   \<and> \<not> ends_by findAndQueueTasks_select stop_only 0
   \<and> \<not> ends_by SubmitTask_select stop_only 0
   \<and> select_outcomes findAndQueueTasks_select stop_only = [(After 100000000, 100000000)]
   \<and> select_outcomes SubmitTask_select stop_only = [(After 5000000000, 5000000000)]"
  by (simp add: ends_by_def select_outcomes_def select_time_def ready_at_def stop_only_def
      findAndQueueTasks_select_def SubmitTask_select_def Millisecond_def Second_def)

section \<open>SubmitTask\<close>

lemma SubmitTask_accepted:
  assumes o: "\<not> closed_by closed_at (5 * Second)"
    and "sur SendTask = Some t" and "t < 5 * Second"
  shows "SubmitTask sur closed_at taskID = [(Returns None, t)]"
proof -
  let ?sur = "sur(SendTask := earliest [sur SendTask, closed_at])"
  from o assms(2,3) have a: "?sur SendTask = Some t" and b: "\<not> closed_by closed_at t"
    by (cases closed_at; auto simp: closed_by_def min_def)+
  from send_select_outcomes_early [of ?sur t "5 * Second"] a assms(3) b show ?thesis
    by (simp add: SubmitTask_def SubmitTask_select_def)
qed

lemma SubmitTask_full:
  assumes o: "\<not> closed_by closed_at (5 * Second)"
    and f: "sur SendTask = None \<or> (\<exists>t. sur SendTask = Some t \<and> 5 * Second < t)"
  shows "SubmitTask sur closed_at taskID = [(Returns (Some ErrChannelFull), 5 * Second)]"
proof -
  let ?sur = "sur(SendTask := earliest [sur SendTask, closed_at])"
  from o f have "?sur SendTask = None \<or> (\<exists>t. ?sur SendTask = Some t \<and> 5 * Second < t)"
    by (cases closed_at; auto simp: closed_by_def min_def split: if_splits)
  from send_select_outcomes_late [of ?sur "5 * Second", OF this] show ?thesis
    by (simp add: SubmitTask_def SubmitTask_select_def)
qed

lemma SubmitTask_ends:
  "SubmitTask sur closed_at taskID \<noteq> []
   \<and> (\<forall>r \<in> set (SubmitTask sur closed_at taskID). snd r \<le> 5 * Second)"
proof -
  let ?sur = "sur(SendTask := earliest [sur SendTask, closed_at])"
  have "select_outcomes [SendTask, After (5 * Second)] ?sur \<noteq> []
   \<and> (\<forall>r \<in> set (select_outcomes [SendTask, After (5 * Second)] ?sur). snd r \<le> 5 * Second)"
    by (cases "?sur SendTask") (auto simp: select_outcomes_def send_select_time ready_at_def min_def)
  then show ?thesis
    by (auto simp: SubmitTask_def SubmitTask_select_def)
qed

text \<open>
  While the channel is open until the timer has fired, a call ends as the select's case
  says: with nil when the channel has room before the 5 seconds are over, with
  \<open>ErrChannelFull\<close> at 5 seconds when it has none until then.
\<close>

lemma SubmitTask_open_channel:
  assumes "\<not> closed_by closed_at (5 * Second)"
  shows "(sur SendTask = Some t \<and> t < 5 * Second \<longrightarrow>
            SubmitTask sur closed_at taskID = [(Returns None, t)])
   \<and> (sur SendTask = None \<or> (\<exists>t. sur SendTask = Some t \<and> 5 * Second < t) \<longrightarrow>
        SubmitTask sur closed_at taskID = [(Returns (Some ErrChannelFull), 5 * Second)])
   \<and> 100 * Millisecond < 5 * Second
   \<and> Error ErrChannelFull = ''task queue is full''"
  using SubmitTask_accepted [OF assms, of sur t taskID] SubmitTask_full [OF assms, of sur taskID]
  by (simp add: Millisecond_def Second_def Error_def ErrChannelFull_def)

lemma submit_fill:
  assumes "\<not> taskChannel_closed w" and "length (taskChannel w) + n \<le> taskChannel_cap"
  shows "run (replicate n (SubmitSent taskID)) w
    = Some (w\<lparr>taskChannel := taskChannel w @ replicate n taskID,
               logs := logs w @ replicate n (Submitted taskID)\<rparr>)"
  using assms
proof (induction n arbitrary: w)
  case 0
  then show ?case by simp
next
  case (Suc n)
  let ?w = "w\<lparr>taskChannel := taskChannel w @ [taskID], logs := logs w @ [Submitted taskID]\<rparr>"
  have st: "step (SubmitSent taskID) w = Some ?w"
    using Suc.prems by simp
  have "run (replicate n (SubmitSent taskID)) ?w
      = Some (?w\<lparr>taskChannel := taskChannel ?w @ replicate n taskID,
               logs := logs ?w @ replicate n (Submitted taskID)\<rparr>)"
    using Suc.prems by (intro Suc.IH) simp_all
  with st show ?case by (simp del: step.simps)
qed

lemma full_state_run:
  "run (replicate 100 (SubmitSent ''a'')) (started db0 cfg0) = Some full_state"
proof -
  have "\<not> taskChannel_closed (started db0 cfg0)"
    and "length (taskChannel (started db0 cfg0)) + 100 \<le> taskChannel_cap"
    by (simp_all add: started_def Start_def NewTaskWorker_def taskChannel_cap_def)
  from submit_fill [OF this, of "''a''"] show ?thesis
    by (simp add: full_state_def started_def Start_def NewTaskWorker_def)
qed

section \<open>Runs\<close>

lemma run_then:
  assumes "run es w = Some v" and "run fs v = Some w'"
  shows "run (es @ fs) w = Some w'"
  using assms by (simp add: run_append)

lemma run_invariant:
  assumes "\<And>e w w'. P w \<Longrightarrow> step e w = Some w' \<Longrightarrow> P w'"
    and "P w" and "run es w = Some w'"
  shows "P w'"
  using assms(2,3)
proof (induction es arbitrary: w)
  case Nil
  then show ?case by simp
next
  case (Cons e es)
  from Cons.prems(2) obtain v where v: "step e w = Some v" and r: "run es v = Some w'"
    by (auto split: option.splits)
  from assms(1) [OF Cons.prems(1) v] have "P v" .
  from Cons.IH [OF this r] show ?case .
qed

lemma lifecycle_started: "lifecycle (started d c)"
  by (simp add: lifecycle_def goroutines_def started_def Start_def NewTaskWorker_def)

lemma marks_started: "marks (started d c)"
  by (simp add: marks_def sending_def started_def Start_def NewTaskWorker_def)

lemma lifecycle_step:
  assumes l: "lifecycle w" and s: "step e w = Some w'"
  shows "lifecycle w'"
proof (cases e)
  case StopClose
  with l s show ?thesis
    by (auto simp: lifecycle_def goroutines_def split: if_splits)
next
  case StopFinish
  with l s show ?thesis
    by (auto simp: lifecycle_def goroutines_def split: if_splits)
next
  case CheckStop
  with l s show ?thesis
    by (auto simp: lifecycle_def goroutines_def split: if_splits)
next
  case CheckTick
  with l s show ?thesis
    by (auto simp: lifecycle_def goroutines_def split: if_splits prod.splits option.splits)
next
  case CheckNext
  with l s show ?thesis
    by (cases "checker w") (auto simp: lifecycle_def goroutines_def split: if_splits list.splits)
next
  case CheckSent
  with l s show ?thesis
    by (cases "checker w") (auto simp: lifecycle_def goroutines_def split: if_splits)
next
  case CheckTimeout
  with l s show ?thesis
    by (cases "checker w") (auto simp: lifecycle_def goroutines_def split: if_splits)
next
  case ProcStop
  with l s show ?thesis
    by (auto simp: lifecycle_def goroutines_def split: if_splits)
next
  case ProcRecv
  with l s show ?thesis
    by (auto simp: lifecycle_def goroutines_def split: if_splits list.splits)
next
  case ProcFetched
  with l s show ?thesis
    by (cases "processor w")
       (auto simp: lifecycle_def goroutines_def split: if_splits option.splits)
next
  case ProcUpdated
  with l s show ?thesis
    by (cases "processor w")
       (auto simp: lifecycle_def goroutines_def split: prod.splits)
next
  case (SubmitSent x)
  with l s show ?thesis
    by (auto simp: lifecycle_def goroutines_def split: if_splits)
next
  case (SubmitTimeout x)
  with l s show ?thesis
    by (auto simp: lifecycle_def goroutines_def split: if_splits)
next
  case (Env x)
  with l s show ?thesis
    by (auto simp: lifecycle_def goroutines_def)
qed

lemma marks_unchanged:
  assumes "processedTasks w' = processedTasks w" and "sent w' = sent w"
    and "in_send (checker w') = in_send (checker w)"
  shows "marks w' = marks w"
  using assms by (simp add: marks_def sending_def)

lemma marks_step:
  assumes l: "marks w" and s: "step e w = Some w'"
  shows "marks w'"
proof (cases e)
  case StopClose
  with s have "marks w' = marks w"
    by (intro marks_unchanged) (auto split: if_splits)
  with l show ?thesis by simp
next
  case StopFinish
  with s have "marks w' = marks w"
    by (intro marks_unchanged) (auto split: if_splits)
  with l show ?thesis by simp
next
  case CheckStop
  with s have "marks w' = marks w"
    by (intro marks_unchanged) (auto split: if_splits)
  with l show ?thesis by simp
next
  case CheckTick
  with s have "marks w' = marks w"
    by (intro marks_unchanged) (auto split: if_splits prod.splits option.splits)
  with l show ?thesis by simp
next
  case CheckNext
  show ?thesis
  proof (cases "checker w")
    case (CheckLoop ts)
    show ?thesis
    proof (cases ts)
      case Nil
      with s CheckNext CheckLoop have "marks w' = marks w"
        by (intro marks_unchanged) auto
      with l show ?thesis by simp
    next
      case (Cons task rest)
      show ?thesis
      proof (cases "processedTasks w (ID task) = None")
        case True
        with s CheckNext CheckLoop Cons
        have w': "w' = w\<lparr>processedTasks := (processedTasks w)(ID task \<mapsto> True),
                        checker := CheckSend (ID task) rest\<rparr>"
          by simp
        from l CheckLoop have d: "dom (processedTasks w) = set (sent w)" and di: "distinct (sent w)"
          by (simp_all add: marks_def sending_def)
        from True d have "ID task \<notin> set (sent w)"
          by (auto simp: domIff)
        with d di show ?thesis
          by (simp add: w' marks_def sending_def)
      next
        case False
        with s CheckNext CheckLoop Cons have "marks w' = marks w"
          by (intro marks_unchanged) auto
        with l show ?thesis by simp
      qed
    qed
  qed (use s CheckNext in simp_all)
next
  case CheckSent
  show ?thesis
  proof (cases "checker w")
    case (CheckSend taskID ts)
    with s CheckSent
    have w': "w' = w\<lparr>taskChannel := taskChannel w @ [taskID], sent := sent w @ [taskID],
                        logs := logs w @ [Queued taskID], checker := CheckLoop ts\<rparr>"
      by (simp split: if_splits)
    from l CheckSend have d: "dom (processedTasks w) = set (sent w) \<union> {taskID}"
      and di: "distinct (sent w)" and n: "taskID \<notin> set (sent w)"
      by (simp_all add: marks_def sending_def)
    then show ?thesis
      by (auto simp: w' marks_def sending_def)
  qed (use s CheckSent in simp_all)
next
  case CheckTimeout
  show ?thesis
  proof (cases "checker w")
    case (CheckSend taskID ts)
    with s CheckTimeout
    have w': "w' = w\<lparr>processedTasks := (processedTasks w)(taskID := None), checker := CheckLoop ts\<rparr>"
      by (simp split: if_splits)
    from l CheckSend have d: "dom (processedTasks w) = set (sent w) \<union> {taskID}"
      and di: "distinct (sent w)" and n: "taskID \<notin> set (sent w)"
      by (simp_all add: marks_def sending_def)
    then show ?thesis
      by (auto simp: w' marks_def sending_def)
  qed (use s CheckTimeout in simp_all)
next
  case ProcStop
  with s have "marks w' = marks w"
    by (intro marks_unchanged) (auto split: if_splits)
  with l show ?thesis by simp
next
  case ProcRecv
  with s have "marks w' = marks w"
    by (intro marks_unchanged) (auto split: if_splits list.splits)
  with l show ?thesis by simp
next
  case ProcFetched
  with s have "marks w' = marks w"
    by (intro marks_unchanged; cases "processor w") (auto split: if_splits option.splits)
  with l show ?thesis by simp
next
  case ProcUpdated
  with s have "marks w' = marks w"
    by (intro marks_unchanged; cases "processor w") (auto split: prod.splits)
  with l show ?thesis by simp
next
  case (SubmitSent x)
  with s have "marks w' = marks w"
    by (intro marks_unchanged) (auto split: if_splits)
  with l show ?thesis by simp
next
  case (SubmitTimeout x)
  with s have "marks w' = marks w"
    by (intro marks_unchanged) (auto split: if_splits)
  with l show ?thesis by simp
next
  case (Env x)
  with s have "marks w' = marks w"
    by (intro marks_unchanged) auto
  with l show ?thesis by simp
qed


lemma queued_state_run:
  "run [CheckTick, CheckNext, CheckSent, CheckNext, CheckSent, CheckNext] (started db0 cfg0)
     = Some queued_state"
  by (simp add: queued_state_def started_def Start_def NewTaskWorker_def cfg0_minutes db0_scan
      taskChannel_cap_def task_a_def task_e_def)

lemma dropped_state_run:
  "run [ProcRecv, StopClose, ProcFetched, ProcUpdated, ProcStop, CheckStop, StopFinish] queued_state
     = Some dropped_state"
  by (simp add: dropped_state_def queued_state_def started_def Start_def NewTaskWorker_def
      autoCompleteTask_check_def autoCompleteTask_update_def AutoCompleteTask_def GetTaskByID_def
      db0_def task_a_def task_b_def task_c_def task_e_def)

lemma stale_state_run:
  "run [ProcRecv, ProcFetched, Env db0_broken, ProcUpdated, Env db0,
        ProcRecv, ProcFetched, ProcUpdated, CheckTick, CheckNext, CheckNext] queued_state
     = Some stale_state"
  by (simp add: stale_state_def queued_state_def started_def Start_def NewTaskWorker_def
      autoCompleteTask_check_def autoCompleteTask_update_def AutoCompleteTask_def GetTaskByID_def
      GetTasksForAutoCompletion_def minute_def cfg0_minutes
      db0_broken_def db0_def task_a_def task_b_def task_c_def task_e_def)


section \<open>Stopping\<close>

lemma reachable_lifecycle:
  assumes "run es (started d c) = Some w"
  shows "lifecycle w"
  using lifecycle_step lifecycle_started assms by (rule run_invariant)

lemma Stop_returns_after_exit:
  assumes "run es (started d c) = Some w" and "stopper w = StopDone"
  shows "checker w = CheckDone \<and> processor w = ProcDone \<and> received w = handled w"
proof -
  from reachable_lifecycle [OF assms(1)] assms(2)
  have g: "goroutines w = 0" and r: "received w = handled w @ in_hand (processor w)"
    and i: "checker w \<noteq> CheckIdle" "processor w \<noteq> ProcIdle"
    by (simp_all add: lifecycle_def)
  from g i have "checker w = CheckDone"
    by (cases "checker w") (simp_all add: goroutines_def)
  moreover from g i have "processor w = ProcDone"
    by (cases "processor w") (simp_all add: goroutines_def)
  ultimately show ?thesis using r by simp
qed

lemma stopped_step:
  assumes "checker w = CheckDone \<and> processor w = ProcDone \<and> stopper w = StopDone \<and> taskChannel_closed w"
    and "step e w = Some w'"
  shows "checker w' = CheckDone \<and> processor w' = ProcDone \<and> stopper w' = StopDone \<and> taskChannel_closed w'
    \<and> handled w' = handled w \<and> taskChannel w' = taskChannel w"
  using assms by (cases e) (auto split: if_splits)

lemma stopped_run:
  assumes "checker w = CheckDone \<and> processor w = ProcDone \<and> stopper w = StopDone \<and> taskChannel_closed w"
    and "run es w = Some w'"
  shows "handled w' = handled w \<and> taskChannel w' = taskChannel w"
  using assms
proof (induction es arbitrary: w)
  case Nil
  then show ?case by simp
next
  case (Cons e es)
  from Cons.prems(2) obtain v where v: "step e w = Some v" and r: "run es v = Some w'"
    by (auto split: option.splits)
  from stopped_step [OF Cons.prems(1) v] Cons.IH [OF _ r] show ?case by simp
qed

lemma nothing_handled_after_Stop:
  assumes "run es (started d c) = Some w" and "stopper w = StopDone" and "run fs w = Some w'"
  shows "handled w' = handled w \<and> taskChannel w' = taskChannel w"
proof -
  from reachable_lifecycle [OF assms(1)] assms(2) have "taskChannel_closed w"
    by (simp add: lifecycle_def)
  with Stop_returns_after_exit [OF assms(1,2)] assms(2) stopped_run [OF _ assms(3)]
  show ?thesis by simp
qed

text \<open>
  C2 fails on the code. In the schedule below the queue holds e when \<open>Stop\<close> is called;
  the processor finishes a, takes the stop case of its select although e is waiting, and
  \<open>Stop\<close> returns with e still in the queue, never received and still in progress in
  the store. By the two lemmas above, \<open>Stop\<close> does wait for both loops to return, and
  nothing is handled after it has returned.
\<close>

theorem Stop_drops_queued_task:
  "run drop_schedule (started db0 cfg0) = Some dropped_state
   \<and> stopper dropped_state = StopDone
   \<and> queue_at_stop dropped_state = [''e'']
   \<and> received dropped_state = [''a'']
   \<and> handled dropped_state = [''a'']
   \<and> taskChannel dropped_state = [''e'']
   \<and> GetTaskByID (db dropped_state) ''e'' = (Some task_e, None)
   \<and> Status task_e = ''in_progress''"
proof -
  have "run drop_schedule (started db0 cfg0) = Some dropped_state"
    using run_then [OF queued_state_run dropped_state_run]
    by (simp add: drop_schedule_def del: run.simps step.simps)
  moreover have "GetTaskByID (db dropped_state) ''e'' = (Some task_e, None)"
    by (simp add: dropped_state_def GetTaskByID_def db0_def task_a_def task_b_def task_c_def task_e_def)
  moreover have "Status task_e = ''in_progress''"
    by (simp add: task_e_def)
  ultimately show ?thesis
    by (simp add: dropped_state_def)
qed

section \<open>The in-flight map\<close>

lemma reachable_marks:
  assumes "run es (started d c) = Some w"
  shows "marks w"
  using marks_step marks_started assms by (rule run_invariant)

lemma sent_step:
  assumes "taskID \<in> set (sent w)" and "step e w = Some w'"
  shows "taskID \<in> set (sent w')"
  using assms
  by (cases e; cases "checker w"; cases "processor w")
     (auto split: if_splits list.splits option.splits prod.splits)

lemma sent_run:
  assumes "taskID \<in> set (sent w)" and "run fs w = Some w'"
  shows "taskID \<in> set (sent w')"
  using sent_step assms by (rule run_invariant)

lemma sent_stays_marked:
  assumes r: "run es (started d c) = Some w" and s: "taskID \<in> set (sent w)" and f: "run fs w = Some w'"
  shows "marked taskID w' \<and> taskID \<in> set (sent w')"
proof -
  from r f have "run (es @ fs) (started d c) = Some w'"
    by (simp add: run_append)
  from reachable_marks [OF this] have "dom (processedTasks w') = set (sent w') \<union> sending w'"
    by (simp add: marks_def)
  with sent_run [OF s f] show ?thesis
    by (auto simp: marked_def)
qed

lemma timeout_evicts:
  assumes "checker w = CheckSend taskID ts" and "step CheckTimeout w = Some w'"
  shows "\<not> marked taskID w' \<and> checker w' = CheckLoop ts \<and> sent w' = sent w"
  using assms by (auto simp: marked_def split: if_splits)

lemma processor_keeps_marks:
  assumes "step e w = Some w'" and "e \<in> {ProcStop, ProcRecv, ProcFetched, ProcUpdated}"
  shows "processedTasks w' = processedTasks w"
  using assms
  by (cases "processor w") (auto split: if_splits list.splits option.splits prod.splits)

text \<open>
  C3, as amended. In every reachable state the identifiers with an entry in the
  in-flight map are those the checker has sent to the queue, each of them once, and the
  one it is sending at the moment. A send that times out evicts the entry. An identifier
  that was sent keeps its entry for the rest of the run, and no step of the processor
  changes the map.
\<close>

theorem in_flight_marks:
  "(run es (started d c) = Some w \<longrightarrow>
      dom (processedTasks w) = set (sent w) \<union> sending w
      \<and> distinct (sent w) \<and> sending w \<inter> set (sent w) = {})
   \<and> (checker w = CheckSend taskID ts \<and> step CheckTimeout w = Some w' \<longrightarrow>
      \<not> marked taskID w' \<and> checker w' = CheckLoop ts \<and> sent w' = sent w)
   \<and> (run es (started d c) = Some w \<and> taskID \<in> set (sent w) \<and> run fs w = Some w' \<longrightarrow>
      marked taskID w' \<and> taskID \<in> set (sent w'))
   \<and> (step e w = Some w' \<and> e \<in> {ProcStop, ProcRecv, ProcFetched, ProcUpdated} \<longrightarrow>
      processedTasks w' = processedTasks w)"
proof -
  have a: "dom (processedTasks w) = set (sent w) \<union> sending w
      \<and> distinct (sent w) \<and> sending w \<inter> set (sent w) = {}"
    if "run es (started d c) = Some w"
    using reachable_marks [OF that] by (simp add: marks_def)
  from a timeout_evicts [of w taskID ts w'] sent_stays_marked [of es d c w taskID fs w']
    processor_keeps_marks [of e w w']
  show ?thesis by blast
qed


lemma blocked_state_run:
  "run [CheckTick, CheckNext] full_state = Some blocked_state"
  by (simp add: blocked_state_def full_state_def started_def Start_def NewTaskWorker_def
      cfg0_minutes db0_scan task_a_def)

lemma evicted_state_step:
  "step CheckTimeout blocked_state = Some evicted_state"
  by (simp add: blocked_state_def evicted_state_def full_state_def started_def Start_def
      NewTaskWorker_def taskChannel_cap_def)

theorem in_flight_marks_witness:
  "run [CheckTick, CheckNext, CheckSent, CheckNext, CheckSent, CheckNext] (started db0 cfg0)
     = Some queued_state
   \<and> dom (processedTasks queued_state) = {''a'', ''e''}
   \<and> sent queued_state = [''a'', ''e''] \<and> sending queued_state = {}
   \<and> run (replicate 100 (SubmitSent ''a'') @ [CheckTick, CheckNext]) (started db0 cfg0) = Some blocked_state
   \<and> checker blocked_state = CheckSend ''a'' [task_e]
   \<and> marked ''a'' blocked_state
   \<and> step CheckTimeout blocked_state = Some evicted_state
   \<and> \<not> marked ''a'' evicted_state
   \<and> ''a'' \<in> set (sent queued_state)
   \<and> run [ProcRecv, ProcFetched, Env db0_broken, ProcUpdated, Env db0,
        ProcRecv, ProcFetched, ProcUpdated, CheckTick, CheckNext, CheckNext] queued_state
     = Some stale_state
   \<and> marked ''a'' stale_state
   \<and> ProcRecv \<in> {ProcStop, ProcRecv, ProcFetched, ProcUpdated}
   \<and> map_option processedTasks (step ProcRecv queued_state) = Some (processedTasks queued_state)"
proof -
  note q = queued_state_run
  have s: "sent queued_state = [''a'', ''e'']" and g: "sending queued_state = {}"
    by (simp_all add: queued_state_def sending_def started_def Start_def NewTaskWorker_def)
  have sa: "''a'' \<in> set (sent queued_state)" using s by simp
  have b: "run (replicate 100 (SubmitSent ''a'') @ [CheckTick, CheckNext]) (started db0 cfg0) = Some blocked_state"
    by (rule run_then [OF full_state_run blocked_state_run])
  have cb: "checker blocked_state = CheckSend ''a'' [task_e]"
    and mb: "marked ''a'' blocked_state"
    by (simp_all add: blocked_state_def marked_def)
  have pr: "step ProcRecv queued_state
      = Some (queued_state\<lparr>taskChannel := [''e''], received := [''a''], processor := ProcFetch ''a''\<rparr>)"
    by (simp add: queued_state_def started_def Start_def NewTaskWorker_def)
  have pe: "ProcRecv \<in> {ProcStop, ProcRecv, ProcFetched, ProcUpdated}" by simp
  from in_flight_marks [of "[CheckTick, CheckNext, CheckSent, CheckNext, CheckSent, CheckNext]" db0 cfg0
      queued_state "''a''" "[]" queued_state
      "[ProcRecv, ProcFetched, Env db0_broken, ProcUpdated, Env db0,
        ProcRecv, ProcFetched, ProcUpdated, CheckTick, CheckNext, CheckNext]" ProcRecv] q
  have 1: "dom (processedTasks queued_state) = set (sent queued_state) \<union> sending queued_state"
    by blast
  from in_flight_marks [of "[]" db0 cfg0 blocked_state "''a''" "[task_e]" evicted_state "[]" ProcRecv]
    cb evicted_state_step
  have 2: "\<not> marked ''a'' evicted_state"
    by blast
  from in_flight_marks [of "[CheckTick, CheckNext, CheckSent, CheckNext, CheckSent, CheckNext]" db0 cfg0
      queued_state "''a''" "[]" stale_state
      "[ProcRecv, ProcFetched, Env db0_broken, ProcUpdated, Env db0,
        ProcRecv, ProcFetched, ProcUpdated, CheckTick, CheckNext, CheckNext]" ProcRecv]
    q sa stale_state_run
  have 3: "marked ''a'' stale_state"
    by blast
  from in_flight_marks [of "[]" db0 cfg0 queued_state "''a''" "[]"
      "queued_state\<lparr>taskChannel := [''e''], received := [''a''], processor := ProcFetch ''a''\<rparr>"
      "[]" ProcRecv] pr pe
  have 4: "processedTasks (queued_state\<lparr>taskChannel := [''e''], received := [''a''], processor := ProcFetch ''a''\<rparr>)
      = processedTasks queued_state"
    by blast
  from q 1 s g b cb mb evicted_state_step 2 sa stale_state_run 3 pe pr 4
  show ?thesis by (simp del: step.simps run.simps)
qed

text \<open>
  C3 as stated fails: at the end of the schedule below, a has an entry although it is not
  in the queue, not being sent and not in the processor's hands; the processor has
  finished handling it (its update failed), a scan still returns it, and a scan leaves
  the state as it is, so a is not queued again.
\<close>

theorem stale_marker_blocks_rediscovery:
  "run stale_schedule (started db0 cfg0) = Some stale_state
   \<and> marked ''a'' stale_state
   \<and> ''a'' \<notin> set (taskChannel stale_state)
   \<and> sending stale_state = {}
   \<and> in_hand (processor stale_state) = []
   \<and> ''a'' \<in> set (handled stale_state)
   \<and> candidates stale_state = [task_a]
   \<and> sent stale_state = [''a'', ''e'']
   \<and> run [CheckTick, CheckNext, CheckNext] stale_state = Some stale_state"
proof -
  have "run stale_schedule (started db0 cfg0) = Some stale_state"
    using run_then [OF queued_state_run stale_state_run]
    by (simp add: stale_schedule_def del: run.simps step.simps)
  moreover have "candidates stale_state = [task_a]"
    by (simp add: candidates_def stale_state_def queued_state_def started_def Start_def
        NewTaskWorker_def cfg0_minutes GetTasksForAutoCompletion_def minute_def db0_def
        task_a_def task_b_def task_c_def task_e_def)
  moreover have "run [CheckTick, CheckNext, CheckNext] stale_state = Some stale_state"
    by (simp add: stale_state_def queued_state_def started_def Start_def
        NewTaskWorker_def cfg0_minutes GetTasksForAutoCompletion_def minute_def db0_def
        task_a_def task_b_def task_c_def task_e_def)
  moreover have "marked ''a'' stale_state \<and> ''a'' \<notin> set (taskChannel stale_state)
      \<and> sending stale_state = {} \<and> in_hand (processor stale_state) = []
      \<and> ''a'' \<in> set (handled stale_state) \<and> sent stale_state = [''a'', ''e'']"
    by (simp add: marked_def sending_def stale_state_def queued_state_def started_def Start_def
        NewTaskWorker_def)
  ultimately show ?thesis by (simp del: run.simps step.simps)
qed

section \<open>SubmitTask and the closed channel\<close>

lemma closed_full_state_run:
  "run [StopClose, ProcStop, CheckStop, StopFinish] full_state = Some closed_full_state"
  by (simp add: closed_full_state_def full_state_def started_def Start_def NewTaskWorker_def)

text \<open>
  C8 fails on the code once \<open>Stop\<close> has closed the channel. With a queue that stays
  full, a call returns \<open>ErrChannelFull\<close> after 5 seconds as long as the channel is
  open; when \<open>Stop\<close> closes the channel 2 seconds into the wait, the send case proceeds
  and the call panics instead of returning, and so does a call made after \<open>Stop\<close>. The
  state with the queue full and closed is reached by a hundred submissions followed by
  \<open>Stop\<close>, and neither end of a call is possible there.
\<close>

theorem SubmitTask_panics_on_closed_channel:
  "stop_only SendTask = None
   \<and> SubmitTask stop_only None ''a'' = [(Returns (Some ErrChannelFull), 5000000000)]
   \<and> SubmitTask stop_only (Some 2000000000) ''a'' = [(Panics, 2000000000)]
   \<and> SubmitTask (room_after 0) (Some 0) ''a'' = [(Panics, 0)]
   \<and> run (replicate 100 (SubmitSent ''a'') @ [StopClose, ProcStop, CheckStop, StopFinish])
        (started db0 cfg0) = Some closed_full_state
   \<and> stopper closed_full_state = StopDone
   \<and> taskChannel_closed closed_full_state
   \<and> length (taskChannel closed_full_state) = taskChannel_cap
   \<and> step (SubmitSent ''a'') closed_full_state = None
   \<and> step (SubmitTimeout ''a'') closed_full_state = None"
proof -
  have e: "stop_only SendTask = None
      \<and> SubmitTask stop_only None ''a'' = [(Returns (Some ErrChannelFull), 5000000000)]
      \<and> SubmitTask stop_only (Some 2000000000) ''a'' = [(Panics, 2000000000)]"
    by (simp add: SubmitTask_def SubmitTask_select_def select_outcomes_def select_time_def
        ready_at_def stop_only_def closed_by_def Second_def Millisecond_def)
  have f: "SubmitTask (room_after 0) (Some 0) ''a'' = [(Panics, 0)]"
    by (simp add: SubmitTask_def SubmitTask_select_def select_outcomes_def select_time_def
        ready_at_def room_after_def closed_by_def Second_def Millisecond_def)
  have r: "run (replicate 100 (SubmitSent ''a'') @ [StopClose, ProcStop, CheckStop, StopFinish])
        (started db0 cfg0) = Some closed_full_state"
    by (rule run_then [OF full_state_run closed_full_state_run])
  have c: "stopper closed_full_state = StopDone \<and> taskChannel_closed closed_full_state
      \<and> length (taskChannel closed_full_state) = taskChannel_cap"
    by (simp add: closed_full_state_def full_state_def taskChannel_cap_def)
  from c have n: "step (SubmitSent ''a'') closed_full_state = None
      \<and> step (SubmitTimeout ''a'') closed_full_state = None"
    by simp
  from e f r c n show ?thesis by (simp del: step.simps run.simps)
qed

end
